theory Spec2Isabelle
  imports Complex_Main
begin

section \<open>Exceptions\<close>

text \<open>
  What the modelled code can throw: a \<^verbatim>\<open>TypeError\<close> of the runtime, an exception thrown by
  code of the user (a sampler, a \<^verbatim>\<open>valueOf\<close>), and the \<^verbatim>\<open>SentryError\<close> of
  \<^verbatim>\<open>computeTracestateValue\<close>.
\<close>

datatype js_error = TypeError | UserError | SentryError


section \<open>Regular expressions as the runtime matches them\<close>

text \<open>
  \<^verbatim>\<open>extractTraceparentData\<close> (\<^verbatim>\<open>packages/tracing/src/utils.ts\<close>) is
  \<^verbatim>\<open>traceparent.match(TRACEPARENT_REGEXP)\<close> followed by a reading of the groups, so what it
  returns is decided by the backtracking matcher of the language. The matcher is modelled
  as the language standard describes it: a pattern is compiled to a function that takes a
  state (here the part of the input that is still to be read, and the captures) and a
  continuation, and returns what the continuation returns on the first way of matching
  that the continuation accepts, or failure (\<open>None\<close>).

  Only the constructs the patterns of this file use are modelled: a class of characters,
  a sequence, a capturing group, a greedy quantifier \<open>{lo,hi}\<close> (\<open>hi = None\<close> for no upper
  bound; \<open>?\<close> is \<open>{0,1}\<close>, \<open>*\<close> is \<open>{0,}\<close>, \<open>{n}\<close> is \<open>{n,n}\<close>), and the assertions
  \<open>^\<close> and \<open>$\<close> (without the multiline flag: start and end of the input).
\<close>

type_synonym captures = "nat \<Rightarrow> string option"

type_synonym match_state = "string \<times> captures"

datatype regexp =
    Class "char list"
  | Seq regexp regexp
  | Group nat regexp
  | Repeat nat "nat option" regexp
  | LineStart
  | LineEnd

abbreviation Star :: "regexp \<Rightarrow> regexp" where
  "Star r \<equiv> Repeat 0 None r"

abbreviation Opt :: "regexp \<Rightarrow> regexp" where
  "Opt r \<equiv> Repeat 0 (Some (Suc 0)) r"

abbreviation Exactly :: "nat \<Rightarrow> regexp \<Rightarrow> regexp" where
  "Exactly n r \<equiv> Repeat n (Some n) r"

text \<open>The groups inside a pattern: a quantifier resets them before each iteration.\<close>

fun groups :: "regexp \<Rightarrow> nat list" where
  "groups (Class cs) = []"
| "groups (Seq a b) = groups a @ groups b"
| "groups (Group n r) = n # groups r"
| "groups (Repeat lo hi r) = groups r"
| "groups LineStart = []"
| "groups LineEnd = []"

fun clear :: "nat list \<Rightarrow> captures \<Rightarrow> captures" where
  "clear [] caps = caps"
| "clear (n # ns) caps = clear ns (caps(n := None))"

fun depth :: "regexp \<Rightarrow> nat" where
  "depth (Class cs) = 0"
| "depth (Seq a b) = Suc (depth a + depth b)"
| "depth (Group n r) = Suc (depth r)"
| "depth (Repeat lo hi r) = Suc (depth r)"
| "depth LineStart = 0"
| "depth LineEnd = 0"

fun lower :: "regexp \<Rightarrow> nat" where
  "lower (Repeat lo hi r) = lo"
| "lower r = 0"

text \<open>
  \<open>matcher inp r x k\<close>: match \<open>r\<close> at state \<open>x\<close> of the input \<open>inp\<close>, then continue with
  \<open>k\<close>. A group records the text read between its start and its end. A quantifier
  with \<open>hi = 0\<close> continues at once; otherwise it matches its body once more (with the
  body's groups reset) and goes on with one iteration less, and when no further iteration
  is required (\<open>lo = 0\<close>) it falls back to continuing without it if that fails. An
  iteration that is not required and reads nothing is refused: the standard tests that
  the end index has moved; a matcher never moves backwards (\<open>matcher_forward\<close> below: a
  continuation is only ever entered with no more left to read than before), so the test
  is written as a comparison of the lengths of what is left to read.
\<close>

function matcher ::
  "string \<Rightarrow> regexp \<Rightarrow> match_state \<Rightarrow> (match_state \<Rightarrow> match_state option) \<Rightarrow> match_state option"
where
  "matcher inp (Class cs) x k =
     (case fst x of
        [] \<Rightarrow> None
      | ch # rest \<Rightarrow> if ch \<in> set cs then k (rest, snd x) else None)"
| "matcher inp (Seq a b) x k = matcher inp a x (\<lambda>y. matcher inp b y k)"
| "matcher inp (Group n r) x k =
     matcher inp r x
       (\<lambda>y. k (fst y, (snd y)(n := Some (take (length (fst x) - length (fst y)) (fst x)))))"
| "matcher inp LineStart x k = (if length (fst x) = length inp then k x else None)"
| "matcher inp LineEnd x k = (if fst x = [] then k x else None)"
| "matcher inp (Repeat lo hi r) x k =
     (if hi = Some 0 then k x
      else
        let d = (\<lambda>y. if lo = 0 \<and> length (fst x) \<le> length (fst y) then None
                     else matcher inp (Repeat (lo - 1) (map_option (\<lambda>m. m - 1) hi) r) y k);
            xr = (fst x, clear (groups r) (snd x))
        in if lo \<noteq> 0 then matcher inp r xr d
           else (case matcher inp r xr d of Some z \<Rightarrow> Some z | None \<Rightarrow> k x))"
  by pat_completeness auto
termination
  by (relation "inv_image (less_than <*lex*> less_than <*lex*> less_than)
        (\<lambda>(inp, r, x, k). (depth r, lower r, length (fst x)))") auto

declare matcher.simps [simp del]

text \<open>A continuation restricted to the states that have not moved backwards from \<open>x\<close>.\<close>

definition forward ::
  "match_state \<Rightarrow> (match_state \<Rightarrow> match_state option) \<Rightarrow> match_state \<Rightarrow> match_state option"
where
  "forward x k = (\<lambda>y. if length (fst y) \<le> length (fst x) then k y else None)"

text \<open>
  Executing a pattern without the global or sticky flag: the matcher is tried at the start
  indices \<open>0, 1, \<dots>, length inp\<close> in turn, with no captures, and the first success is the
  match (its start index and its final state).
\<close>

definition no_captures :: captures where
  "no_captures = (\<lambda>n. None)"

fun first_match :: "regexp \<Rightarrow> string \<Rightarrow> nat list \<Rightarrow> (nat \<times> match_state) option" where
  "first_match r inp [] = None"
| "first_match r inp (i # is) =
     (case matcher inp r (drop i inp, no_captures) Some of
        Some y \<Rightarrow> Some (i, y)
      | None \<Rightarrow> first_match r inp is)"

definition regexp_exec :: "regexp \<Rightarrow> string \<Rightarrow> (nat \<times> match_state) option" where
  "regexp_exec r inp = first_match r inp [0..<Suc (length inp)]"

text \<open>\<^verbatim>\<open>inp.match(r)\<close>: the captures of the match, or \<open>None\<close> for \<^verbatim>\<open>null\<close>.\<close>

definition string_match :: "string \<Rightarrow> regexp \<Rightarrow> captures option" where
  "string_match inp r = map_option (\<lambda>m. snd (snd m)) (regexp_exec r inp)"

text \<open>
  \<^verbatim>\<open>inp.replace(r, new)\<close> where \<open>new\<close> has no \<^verbatim>\<open>$\<close> pattern: the first match is replaced;
  without a match the input is returned.
\<close>

definition string_replace :: "string \<Rightarrow> regexp \<Rightarrow> string \<Rightarrow> string" where
  "string_replace inp r new =
     (case regexp_exec r inp of
        None \<Rightarrow> inp
      | Some m \<Rightarrow> take (fst m) inp @ new @ fst (snd m))"


section \<open>The trace header: \<^verbatim>\<open>TRACEPARENT_REGEXP\<close> and \<^verbatim>\<open>extractTraceparentData\<close>\<close>

text \<open>
  \<^verbatim>\<open>utils.ts\<close>, lines 5 to 11:
  \<^verbatim>\<open>^[ \t]*([0-9a-f]{32})?-?([0-9a-f]{16})?-?([01])?[ \t]*$\<close>.
  Sequencing is associative for the matcher (\<open>matcher_Seq_assoc\<close> below), so the
  nesting of \<open>Seq\<close> is of no consequence.
\<close>

definition whitespace :: "char list" where
  "whitespace = [CHR '' '', CHR 0x09]"

definition hex_digits :: "char list" where
  "hex_digits = ''0123456789abcdef''"

definition TRACEPARENT_REGEXP :: regexp where
  "TRACEPARENT_REGEXP =
     Seq LineStart
    (Seq (Star (Class whitespace))
    (Seq (Opt (Group 1 (Exactly 32 (Class hex_digits))))
    (Seq (Opt (Class ''-''))
    (Seq (Opt (Group 2 (Exactly 16 (Class hex_digits))))
    (Seq (Opt (Class ''-''))
    (Seq (Opt (Group 3 (Class ''01'')))
    (Seq (Star (Class whitespace))
         LineEnd)))))))"

text \<open>\<^verbatim>\<open>utils.ts\<close>, lines 29 to 45. \<open>None\<close> in a field is \<^verbatim>\<open>undefined\<close>.\<close>

record TraceparentData =
  traceId :: "string option"
  parentSampled :: "bool option"
  parentSpanId :: "string option"

definition extractTraceparentData :: "string \<Rightarrow> TraceparentData option" where
  "extractTraceparentData traceparent =
     (case string_match traceparent TRACEPARENT_REGEXP of
        Some matches \<Rightarrow>
          Some \<lparr>traceId = matches 1,
                parentSampled = (if matches 3 = Some ''1'' then Some True
                                 else if matches 3 = Some ''0'' then Some False
                                 else None),
                parentSpanId = matches 2\<rparr>
      | None \<Rightarrow> None)"

text \<open>
  The grammar of the header in the words of the specification: optional spaces and tabs,
  an optional trace id of 32 hexadecimal digits, an optional hyphen, an optional span id
  of 16 hexadecimal digits, an optional hyphen, an optional digit 0 or 1, optional spaces
  and tabs; and nothing else.
\<close>

definition is_whitespace :: "string \<Rightarrow> bool" where
  "is_whitespace w \<longleftrightarrow> set w \<subseteq> set whitespace"

definition is_hex :: "nat \<Rightarrow> string \<Rightarrow> bool" where
  "is_hex n s \<longleftrightarrow> length s = n \<and> set s \<subseteq> set hex_digits"

definition traceparent_grammar :: "string \<Rightarrow> bool" where
  "traceparent_grammar s \<longleftrightarrow>
     (\<exists>w1 t h1 p h2 f w2.
        s = w1 @ t @ h1 @ p @ h2 @ f @ w2 \<and>
        is_whitespace w1 \<and>
        (t = [] \<or> is_hex 32 t) \<and>
        (h1 = [] \<or> h1 = ''-'') \<and>
        (p = [] \<or> is_hex 16 p) \<and>
        (h2 = [] \<or> h2 = ''-'') \<and>
        (f = [] \<or> f = ''0'' \<or> f = ''1'') \<and>
        is_whitespace w2)"

text \<open>The tails of the pattern, and the captures after a piece \<open>u\<close> was read by group \<open>n\<close>.\<close>

abbreviation re_end :: regexp where
  "re_end \<equiv> Seq (Star (Class whitespace)) LineEnd"

abbreviation re_sampled :: regexp where
  "re_sampled \<equiv> Seq (Opt (Group 3 (Class ''01''))) re_end"

abbreviation re_dash2 :: regexp where
  "re_dash2 \<equiv> Seq (Opt (Class ''-'')) re_sampled"

abbreviation re_span :: regexp where
  "re_span \<equiv> Seq (Opt (Group 2 (Exactly 16 (Class hex_digits)))) re_dash2"

abbreviation re_dash1 :: regexp where
  "re_dash1 \<equiv> Seq (Opt (Class ''-'')) re_span"

abbreviation re_trace :: regexp where
  "re_trace \<equiv> Seq (Opt (Group 1 (Exactly 32 (Class hex_digits)))) re_dash1"

abbreviation re_start :: regexp where
  "re_start \<equiv> Seq (Star (Class whitespace)) re_trace"

definition put :: "nat \<Rightarrow> string \<Rightarrow> captures \<Rightarrow> captures" where
  "put n u caps = (if u = [] then caps else caps(n := Some u))"


section \<open>The tracestate header: \<^verbatim>\<open>computeTracestateValue\<close>\<close>

text \<open>
  \<^verbatim>\<open>utils.ts\<close>, lines 78 to 101. A string is the list of the bytes of its UTF-8 encoding,
  so the strings modelled are the well-formed ones (no lone surrogate). The argument is an
  object with four properties; \<^verbatim>\<open>environment\<close> and \<^verbatim>\<open>release\<close> are a string,
  \<^verbatim>\<open>undefined\<close> or \<^verbatim>\<open>null\<close>.

  An object also has an order of its properties, the order in which they were created,
  which \<^verbatim>\<open>JSON.stringify\<close> follows: \<open>property_order\<close> lists the keys of the object's own
  properties, in that order. The four fields are what reading the property gives; for a
  key that is not listed it is \<^verbatim>\<open>undefined\<close> (a missing property) or a value of the
  prototype, and \<^verbatim>\<open>JSON.stringify\<close> does not write it.
\<close>

datatype nullable_string = IsUndefined | IsNull | IsString string

record tracestateData =
  trace_id :: string
  environment :: nullable_string
  release :: nullable_string
  public_key :: string
  property_order :: "string list"

text \<open>Reading a property by its key.\<close>

definition property :: "tracestateData \<Rightarrow> string \<Rightarrow> nullable_string" where
  "property d key =
     (if key = ''trace_id'' then IsString (trace_id d)
      else if key = ''environment'' then environment d
      else if key = ''release'' then release d
      else if key = ''public_key'' then IsString (public_key d)
      else IsUndefined)"

text \<open>
  An assignment to a property keeps the place of a key the object has, and puts a new key
  last.
\<close>

definition assigned :: "string \<Rightarrow> string list \<Rightarrow> string list" where
  "assigned key keys = (if key \<in> set keys then keys else keys @ [key])"

text \<open>\<^verbatim>\<open>v || null\<close>: a falsy \<open>v\<close> (\<^verbatim>\<open>undefined\<close>, \<^verbatim>\<open>null\<close>, the empty string) gives \<^verbatim>\<open>null\<close>.\<close>

fun or_null :: "nullable_string \<Rightarrow> nullable_string" where
  "or_null IsUndefined = IsNull"
| "or_null IsNull = IsNull"
| "or_null (IsString s) = (if s = [] then IsNull else IsString s)"

text \<open>
  \<^verbatim>\<open>JSON.stringify\<close> on such an object: the properties in the order of the object, a
  property whose value is \<^verbatim>\<open>undefined\<close> left out, no white space. A string is quoted as
  the standard says: the double quote and the backslash are escaped, the control
  characters are written
  \<^verbatim>\<open>\b\<close>, \<^verbatim>\<open>\t\<close>, \<^verbatim>\<open>\n\<close>, \<^verbatim>\<open>\f\<close>, \<^verbatim>\<open>\r\<close> or \<^verbatim>\<open>\u00xx\<close>; every other character (every
  byte of a character outside ASCII among them) is copied.
\<close>

definition quote_char :: char where
  "quote_char = CHR 0x22"

definition backslash :: char where
  "backslash = CHR 0x5C"

definition json_escape :: "char \<Rightarrow> string" where
  "json_escape c =
     (if c = CHR 0x08 then [backslash, CHR ''b'']
      else if c = CHR 0x09 then [backslash, CHR ''t'']
      else if c = CHR 0x0A then [backslash, CHR ''n'']
      else if c = CHR 0x0C then [backslash, CHR ''f'']
      else if c = CHR 0x0D then [backslash, CHR ''r'']
      else if c = quote_char then [backslash, quote_char]
      else if c = backslash then [backslash, backslash]
      else if (of_char c :: nat) < 32 then
        [backslash, CHR ''u'', CHR ''0'', CHR ''0'',
         hex_digits ! (of_char c div 16), hex_digits ! (of_char c mod 16)]
      else [c])"

definition json_quote :: "string \<Rightarrow> string" where
  "json_quote s = quote_char # concat (map json_escape s) @ [quote_char]"

fun json_value :: "nullable_string \<Rightarrow> string option" where
  "json_value IsUndefined = None"
| "json_value IsNull = Some ''null''"
| "json_value (IsString s) = Some (json_quote s)"

definition json_member :: "string \<Rightarrow> nullable_string \<Rightarrow> string list" where
  "json_member key v =
     (case json_value v of None \<Rightarrow> [] | Some j \<Rightarrow> [json_quote key @ '':'' @ j])"

fun join_commas :: "string list \<Rightarrow> string" where
  "join_commas [] = []"
| "join_commas [m] = m"
| "join_commas (m # ms) = m @ '','' @ join_commas ms"

definition JSON_stringify :: "tracestateData \<Rightarrow> string" where
  "JSON_stringify d =
     ''{'' @ join_commas
       (concat (map (\<lambda>key. json_member key (property d key)) (property_order d))) @ ''}''"

text \<open>The pattern \<^verbatim>\<open>/={1,2}$/\<close> of line 97.\<close>

definition PADDING_REGEXP :: regexp where
  "PADDING_REGEXP = Seq (Repeat 1 (Some 2) (Class ''='')) LineEnd"

text \<open>
  \<^verbatim>\<open>unicodeToBase64\<close> is imported from \<^verbatim>\<open>@sentry/utils\<close> and is a parameter here. The
  function assigns to the two properties of its argument before anything else, so the
  model returns the object as it is left, and the value returned or the error thrown:
  whatever is thrown inside the \<^verbatim>\<open>try\<close> is replaced by a \<^verbatim>\<open>SentryError\<close>.
\<close>

definition computeTracestateValue ::
  "(string \<Rightarrow> js_error + string) \<Rightarrow> tracestateData \<Rightarrow> tracestateData \<times> (js_error + string)"
where
  "computeTracestateValue toBase64 tracestateData =
     (let d1 = tracestateData
                 \<lparr>environment := or_null (environment tracestateData),
                  property_order := assigned ''environment'' (property_order tracestateData)\<rparr>;
          d2 = d1\<lparr>release := or_null (release d1),
                  property_order := assigned ''release'' (property_order d1)\<rparr>
      in (d2,
          case toBase64 (JSON_stringify d2) of
            Inl err \<Rightarrow> Inl SentryError
          | Inr b64 \<Rightarrow> Inr (string_replace b64 PADDING_REGEXP [])))"

text \<open>
  Modelled from the spec: \<^verbatim>\<open>unicodeToBase64\<close> of \<^verbatim>\<open>@sentry/utils\<close> is not among the
  sources. The specification asks for "a reversible text-to-base64 transform that is safe
  for non-ASCII code points": the base64 encoding (standard alphabet, padded) of the
  UTF-8 bytes of the text.
\<close>

definition base64_alphabet :: string where
  "base64_alphabet = ''ABCDEFGHIJKLMNOPQRSTUVWXYZabcdefghijklmnopqrstuvwxyz0123456789+/''"

fun base64_sextets :: "nat list \<Rightarrow> nat list" where
  "base64_sextets (a # b # c # rest) =
     [a div 4, (a mod 4) * 16 + b div 16, (b mod 16) * 4 + c div 64, c mod 64]
       @ base64_sextets rest"
| "base64_sextets [a, b] = [a div 4, (a mod 4) * 16 + b div 16, (b mod 16) * 4]"
| "base64_sextets [a] = [a div 4, (a mod 4) * 16]"
| "base64_sextets [] = []"

definition base64_padding :: "nat \<Rightarrow> string" where
  "base64_padding n = replicate ((3 - n mod 3) mod 3) (CHR ''='')"

definition base64_encode :: "nat list \<Rightarrow> string" where
  "base64_encode bytes =
     map (\<lambda>v. base64_alphabet ! v) (base64_sextets bytes) @ base64_padding (length bytes)"

definition unicodeToBase64 :: "string \<Rightarrow> js_error + string" where
  "unicodeToBase64 plaintext = Inr (base64_encode (map of_char plaintext))"


section \<open>Reading a tracestate value back\<close>

text \<open>
  The value of the header is read by whoever receives it: base64 decoding, done without
  the padding, then \<^verbatim>\<open>JSON.parse\<close>. These are the decoders the serialisation is compared
  with. The base64 decoder takes the characters up to the first \<^verbatim>\<open>=\<close>, looks each up in
  the alphabet and joins the six-bit values four by four; a last group of two or three
  gives one or two bytes, a last group of one is an error.
\<close>

fun index_of :: "'a \<Rightarrow> 'a list \<Rightarrow> nat option" where
  "index_of x [] = None"
| "index_of x (y # ys) = (if x = y then Some 0 else map_option Suc (index_of x ys))"

fun base64_bytes :: "nat list \<Rightarrow> nat list option" where
  "base64_bytes (a # b # c # d # rest) =
     map_option (\<lambda>bs. [a * 4 + b div 16, (b mod 16) * 16 + c div 4, (c mod 4) * 64 + d] @ bs)
       (base64_bytes rest)"
| "base64_bytes [a, b, c] = Some [a * 4 + b div 16, (b mod 16) * 16 + c div 4]"
| "base64_bytes [a, b] = Some [a * 4 + b div 16]"
| "base64_bytes [a] = None"
| "base64_bytes [] = Some []"

definition base64_decode :: "string \<Rightarrow> string option" where
  "base64_decode s =
     (case those (map (\<lambda>c. index_of c base64_alphabet) (takeWhile (\<lambda>c. c \<noteq> CHR ''='') s)) of
        None \<Rightarrow> None
      | Some vs \<Rightarrow> map_option (map char_of) (base64_bytes vs))"

text \<open>
  \<^verbatim>\<open>JSON.parse\<close> for the texts at hand: an object whose values are strings or \<^verbatim>\<open>null\<close>,
  without white space. A string ends at the first double quote that is not escaped; the
  escapes are those of the standard; an escape \<^verbatim>\<open>\uXXXX\<close> above U+007F, white space, numbers
  and nested values are not modelled and give no result. The members are read one after
  the other, with the length of the text as fuel.
\<close>

definition hex_value :: "char \<Rightarrow> nat option" where
  "hex_value c =
     (case index_of c hex_digits of
        Some v \<Rightarrow> Some v
      | None \<Rightarrow> map_option (\<lambda>i. i + 10) (index_of c ''ABCDEF''))"

definition unescape :: "char \<Rightarrow> char option" where
  "unescape e =
     (if e = CHR ''b'' then Some (CHR 0x08)
      else if e = CHR ''t'' then Some (CHR 0x09)
      else if e = CHR ''n'' then Some (CHR 0x0A)
      else if e = CHR ''f'' then Some (CHR 0x0C)
      else if e = CHR ''r'' then Some (CHR 0x0D)
      else if e = quote_char then Some quote_char
      else if e = backslash then Some backslash
      else if e = CHR ''/'' then Some (CHR ''/'')
      else None)"

definition unicode_escape :: "char \<Rightarrow> char \<Rightarrow> char \<Rightarrow> char \<Rightarrow> char option" where
  "unicode_escape h1 h2 h3 h4 =
     (case (hex_value h1, hex_value h2, hex_value h3, hex_value h4) of
        (Some a, Some b, Some c, Some d) \<Rightarrow>
          (let code = ((a * 16 + b) * 16 + c) * 16 + d
           in if code < 128 then Some (char_of code) else None)
      | _ \<Rightarrow> None)"

definition prepend :: "char \<Rightarrow> (string \<times> string) option \<Rightarrow> (string \<times> string) option" where
  "prepend c r = map_option (\<lambda>p. (c # fst p, snd p)) r"

fun parse_chars :: "string \<Rightarrow> (string \<times> string) option" where
  "parse_chars [] = None"
| "parse_chars (c # cs) =
     (if c = quote_char then Some ([], cs)
      else if c = backslash then
        (case cs of
           [] \<Rightarrow> None
         | e # cs1 \<Rightarrow>
             if e = CHR ''u'' then
               (case cs1 of
                  h1 # h2 # h3 # h4 # cs2 \<Rightarrow>
                    (case unicode_escape h1 h2 h3 h4 of
                       None \<Rightarrow> None
                     | Some ch \<Rightarrow> prepend ch (parse_chars cs2))
                | _ \<Rightarrow> None)
             else
               (case unescape e of
                  None \<Rightarrow> None
                | Some ch \<Rightarrow> prepend ch (parse_chars cs1)))
      else if (of_char c :: nat) < 32 then None
      else prepend c (parse_chars cs))"


datatype json_leaf = JNull | JString string

definition parse_string :: "string \<Rightarrow> (string \<times> string) option" where
  "parse_string s =
     (case s of [] \<Rightarrow> None | c # cs \<Rightarrow> if c = quote_char then parse_chars cs else None)"

definition parse_leaf :: "string \<Rightarrow> (json_leaf \<times> string) option" where
  "parse_leaf s =
     (if take 4 s = ''null'' then Some (JNull, drop 4 s)
      else map_option (\<lambda>p. (JString (fst p), snd p)) (parse_string s))"

definition parse_member :: "string \<Rightarrow> ((string \<times> json_leaf) \<times> string) option" where
  "parse_member s =
     (case parse_string s of
        None \<Rightarrow> None
      | Some kr \<Rightarrow>
          (case snd kr of
             [] \<Rightarrow> None
           | c # r \<Rightarrow>
               if c = CHR '':'' then map_option (\<lambda>p. ((fst kr, fst p), snd p)) (parse_leaf r)
               else None))"

fun parse_members :: "nat \<Rightarrow> string \<Rightarrow> ((string \<times> json_leaf) list \<times> string) option" where
  "parse_members 0 s = None"
| "parse_members (Suc n) s =
     (case parse_member s of
        None \<Rightarrow> None
      | Some mr \<Rightarrow>
          (case snd mr of
             [] \<Rightarrow> None
           | c # r \<Rightarrow>
               if c = CHR ''}'' then Some ([fst mr], r)
               else if c = CHR '','' then
                 map_option (\<lambda>p. (fst mr # fst p, snd p)) (parse_members n r)
               else None))"

definition JSON_parse :: "string \<Rightarrow> (string \<times> json_leaf) list option" where
  "JSON_parse s =
     (case s of
        [] \<Rightarrow> None
      | c # r \<Rightarrow>
          if c \<noteq> CHR ''{'' then None
          else if r = ''}'' then Some []
          else (case parse_members (length r) r of
                  None \<Rightarrow> None
                | Some p \<Rightarrow> if snd p = [] then Some (fst p) else None))"

fun leaf_text :: "json_leaf \<Rightarrow> string" where
  "leaf_text JNull = ''null''"
| "leaf_text (JString s) = json_quote s"

definition member_text :: "string \<times> json_leaf \<Rightarrow> string" where
  "member_text kv = json_quote (fst kv) @ '':'' @ leaf_text (snd kv)"

fun json_leaf_of :: "nullable_string \<Rightarrow> json_leaf" where
  "json_leaf_of (IsString s) = JString s"
| "json_leaf_of v = JNull"

text \<open>The members an object is serialised with: its defined properties, in its order.\<close>

fun members_of :: "tracestateData \<Rightarrow> string list \<Rightarrow> (string \<times> json_leaf) list" where
  "members_of d [] = []"
| "members_of d (key # keys) =
     (if property d key = IsUndefined then members_of d keys
      else (key, json_leaf_of (property d key)) # members_of d keys)"


section \<open>JavaScript values as the sampling code sees them\<close>

text \<open>
  The sampling code of \<^verbatim>\<open>packages/tracing/src/hubextensions.ts\<close> receives values
  "from the user (or from a function provided by the user)", typed \<^verbatim>\<open>unknown\<close>. It looks
  at them through \<^verbatim>\<open>typeof\<close>, \<^verbatim>\<open>isNaN\<close>, \<^verbatim>\<open>Number\<close>, \<^verbatim>\<open>!\<close>, \<^verbatim>\<open><\<close> and \<^verbatim>\<open>>\<close>, so a value is
  modelled by what these operators observe.

  A number is a double. Only comparisons are made on it, and comparisons of doubles agree
  with comparisons of the reals they denote, so a finite number is a real; the two zeros
  are one value (both are falsy and compare equal).
\<close>

datatype js_number = NaN | Finite real | PosInfinity | NegInfinity

datatype js_primitive =
    Undefined
  | Null
  | Boolean bool
  | Number js_number
  | String string
  | Symbol
  | BigInt int

text \<open>
  An object (or function) is observed through three things: whether it is callable
  (\<^verbatim>\<open>typeof\<close>), what its conversion to a primitive with hint "number" gives (its
  \<^verbatim>\<open>valueOf\<close>/\<^verbatim>\<open>toString\<close> may throw, or return no primitive, which is a TypeError), and
  whether \<^verbatim>\<open>JSON.stringify\<close> throws on it (a circular structure, a throwing \<^verbatim>\<open>toJSON\<close>).
  A conversion is taken to give the same result each time it is made on the same object.
\<close>

datatype js_value =
    Primitive js_primitive
  | Object (callable: bool) (toPrimitive: "js_error + js_primitive") (stringifyError: "js_error option")

text \<open>
  The conversions of the runtime that depend on the text of a string or on rounding a
  big integer to a double are parameters of the model.
\<close>

record js_runtime =
  StringToNumber :: "string \<Rightarrow> js_number"
  BigIntToNumber :: "int \<Rightarrow> js_number"

fun typeof :: "js_value \<Rightarrow> string" where
  "typeof (Primitive Undefined) = ''undefined''"
| "typeof (Primitive Null) = ''object''"
| "typeof (Primitive (Boolean b)) = ''boolean''"
| "typeof (Primitive (Number n)) = ''number''"
| "typeof (Primitive (String s)) = ''string''"
| "typeof (Primitive Symbol) = ''symbol''"
| "typeof (Primitive (BigInt i)) = ''bigint''"
| "typeof (Object c p j) = (if c then ''function'' else ''object'')"

fun ToNumberPrimitive :: "js_runtime \<Rightarrow> js_primitive \<Rightarrow> js_error + js_number" where
  "ToNumberPrimitive rt Undefined = Inr NaN"
| "ToNumberPrimitive rt Null = Inr (Finite 0)"
| "ToNumberPrimitive rt (Boolean b) = Inr (Finite (if b then 1 else 0))"
| "ToNumberPrimitive rt (Number n) = Inr n"
| "ToNumberPrimitive rt (String s) = Inr (StringToNumber rt s)"
| "ToNumberPrimitive rt Symbol = Inl TypeError"
| "ToNumberPrimitive rt (BigInt i) = Inl TypeError"

fun ToNumber :: "js_runtime \<Rightarrow> js_value \<Rightarrow> js_error + js_number" where
  "ToNumber rt (Primitive p) = ToNumberPrimitive rt p"
| "ToNumber rt (Object c p j) =
     (case p of Inl e \<Rightarrow> Inl e | Inr q \<Rightarrow> ToNumberPrimitive rt q)"

text \<open>\<^verbatim>\<open>Number(v)\<close> called as a function: as \<^verbatim>\<open>ToNumber\<close>, but a BigInt is converted.\<close>

fun NumberOfPrimitive :: "js_runtime \<Rightarrow> js_primitive \<Rightarrow> js_error + js_number" where
  "NumberOfPrimitive rt (BigInt i) = Inr (BigIntToNumber rt i)"
| "NumberOfPrimitive rt p = ToNumberPrimitive rt p"

fun NumberOf :: "js_runtime \<Rightarrow> js_value \<Rightarrow> js_error + js_number" where
  "NumberOf rt (Primitive p) = NumberOfPrimitive rt p"
| "NumberOf rt (Object c p j) =
     (case p of Inl e \<Rightarrow> Inl e | Inr q \<Rightarrow> NumberOfPrimitive rt q)"

definition isNaN :: "js_runtime \<Rightarrow> js_value \<Rightarrow> js_error + bool" where
  "isNaN rt v = (case ToNumber rt v of Inl e \<Rightarrow> Inl e | Inr n \<Rightarrow> Inr (n = NaN))"

fun ToBoolean :: "js_value \<Rightarrow> bool" where
  "ToBoolean (Primitive Undefined) = False"
| "ToBoolean (Primitive Null) = False"
| "ToBoolean (Primitive (Boolean b)) = b"
| "ToBoolean (Primitive (Number n)) = (n \<noteq> NaN \<and> n \<noteq> Finite 0)"
| "ToBoolean (Primitive (String s)) = (s \<noteq> [])"
| "ToBoolean (Primitive Symbol) = True"
| "ToBoolean (Primitive (BigInt i)) = (i \<noteq> 0)"
| "ToBoolean (Object c p j) = True"

text \<open>The comparison \<^verbatim>\<open>a < b\<close> of two numbers: false as soon as one is NaN.\<close>

fun number_less :: "js_number \<Rightarrow> js_number \<Rightarrow> bool" where
  "number_less NaN b = False"
| "number_less a NaN = False"
| "number_less (Finite x) (Finite y) = (x < y)"
| "number_less (Finite x) PosInfinity = True"
| "number_less (Finite x) NegInfinity = False"
| "number_less PosInfinity b = False"
| "number_less NegInfinity NegInfinity = False"
| "number_less NegInfinity b = True"

text \<open>
  \<^verbatim>\<open>v < n\<close> and \<^verbatim>\<open>v > n\<close> and \<^verbatim>\<open>n < v\<close> for a value \<open>v\<close> and a number \<open>n\<close>: the value is
  converted with hint "number"; a BigInt operand is compared by its mathematical value
  and does not throw.
\<close>

fun ToNumeric :: "js_runtime \<Rightarrow> js_value \<Rightarrow> js_error + js_number" where
  "ToNumeric rt (Primitive (BigInt i)) = Inr (Finite (of_int i))"
| "ToNumeric rt (Object c (Inr (BigInt i)) j) = Inr (Finite (of_int i))"
| "ToNumeric rt v = ToNumber rt v"

definition js_less :: "js_runtime \<Rightarrow> js_value \<Rightarrow> js_number \<Rightarrow> js_error + bool" where
  "js_less rt v n = (case ToNumeric rt v of Inl e \<Rightarrow> Inl e | Inr m \<Rightarrow> Inr (number_less m n))"

definition js_greater :: "js_runtime \<Rightarrow> js_value \<Rightarrow> js_number \<Rightarrow> js_error + bool" where
  "js_greater rt v n = (case ToNumeric rt v of Inl e \<Rightarrow> Inl e | Inr m \<Rightarrow> Inr (number_less n m))"

text \<open>
  \<^verbatim>\<open>JSON.stringify(v)\<close> inside a log message: only whether it throws matters here. A
  BigInt is not serialisable; an object throws what its serialisation throws.
\<close>

fun stringify_throws :: "js_value \<Rightarrow> js_error option" where
  "stringify_throws (Primitive (BigInt i)) = Some TypeError"
| "stringify_throws (Primitive p) = None"
| "stringify_throws (Object c p j) = j"


section \<open>The validator: \<^verbatim>\<open>isValidSampleRate\<close>\<close>

text \<open>
  \<^verbatim>\<open>hubextensions.ts\<close>, lines 128 to 146. The first test is
  \<^verbatim>\<open>isNaN(rate) || !(typeof rate === 'number' || typeof rate === 'boolean')\<close>: \<^verbatim>\<open>isNaN\<close> is
  evaluated first and converts its argument to a number. In the first branch the warning
  is built with \<^verbatim>\<open>JSON.stringify(rate)\<close> before \<open>false\<close> is returned.
\<close>

definition isValidSampleRate :: "js_runtime \<Rightarrow> js_value \<Rightarrow> js_error + bool" where
  "isValidSampleRate rt rate =
     (case isNaN rt rate of
        Inl e \<Rightarrow> Inl e
      | Inr nan \<Rightarrow>
          if nan \<or> \<not> (typeof rate = ''number'' \<or> typeof rate = ''boolean'') then
            (case stringify_throws rate of Some e \<Rightarrow> Inl e | None \<Rightarrow> Inr False)
          else
            (case js_less rt rate (Finite 0) of
               Inl e \<Rightarrow> Inl e
             | Inr lt0 \<Rightarrow>
                 if lt0 then Inr False
                 else (case js_greater rt rate (Finite 1) of
                         Inl e \<Rightarrow> Inl e
                       | Inr gt1 \<Rightarrow> if gt1 then Inr False else Inr True)))"


section \<open>Options, hub, transaction\<close>

text \<open>
  The options object of the client. A key can be absent (\<open>None\<close>) or present with any
  value: \<^verbatim>\<open>hasTracingEnabled\<close> tests the presence of the keys with \<^verbatim>\<open>in\<close>, while \<^verbatim>\<open>sample\<close>
  tests \<^verbatim>\<open>typeof options.tracesSampler === 'function'\<close>. A sampler that is a function maps
  the sampling context to a value, or throws. \<open>maxSpans\<close> is
  \<^verbatim>\<open>options._experiments?.maxSpans\<close> (undefined when absent).
\<close>

record sampling_context =
  parentSampled :: js_value

datatype traces_sampler =
    NotAFunction
  | SamplerFunction "sampling_context \<Rightarrow> js_error + js_value"

record options =
  tracesSampleRate :: "js_value option"
  tracesSampler :: "traces_sampler option"
  maxSpans :: js_value

definition empty_options :: options where
  "empty_options =
     \<lparr>tracesSampleRate = None, tracesSampler = None, maxSpans = Primitive Undefined\<rparr>"

record client =
  client_options :: "options option"

record hub =
  getClient :: "client option"

text \<open>\<^verbatim>\<open>utils.ts\<close>, lines 18 to 20.\<close>

definition hasTracingEnabled :: "options \<Rightarrow> bool" where
  "hasTracingEnabled opts \<longleftrightarrow> tracesSampleRate opts \<noteq> None \<or> tracesSampler opts \<noteq> None"

datatype TransactionSamplingMethod = Explicit | Sampler | Inheritance | Rate

text \<open>
  The \<^verbatim>\<open>transactionSampling\<close> metadata: \<^verbatim>\<open>{ method, rate? }\<close>.
\<close>

record transaction_sampling =
  sampling_method :: TransactionSamplingMethod
  rate :: "js_number option"

text \<open>
  Modelled from the spec: the class \<^verbatim>\<open>Transaction\<close> is not among the sources; the sampling
  pass uses it through \<^verbatim>\<open>sampled\<close>, \<^verbatim>\<open>setMetadata\<close> and \<^verbatim>\<open>initSpanRecorder\<close> only. The
  transaction carries its decision (\<open>None\<close> is \<^verbatim>\<open>undefined\<close>), the
  \<^verbatim>\<open>transactionSampling\<close> entry of its metadata, and the argument its span recorder was
  initialised with (\<open>None\<close> while there is no recorder).
\<close>

record transaction =
  sampled :: "bool option"
  transactionSampling :: "transaction_sampling option"
  spanRecorder :: "js_value option"

definition setMetadata :: "transaction_sampling \<Rightarrow> transaction \<Rightarrow> transaction" where
  "setMetadata ts t = t\<lparr>transactionSampling := Some ts\<rparr>"

definition initSpanRecorder :: "js_value \<Rightarrow> transaction \<Rightarrow> transaction" where
  "initSpanRecorder m t = t\<lparr>spanRecorder := Some m\<rparr>"


section \<open>The sampling pass: \<^verbatim>\<open>sample\<close>\<close>

text \<open>
  \<^verbatim>\<open>hubextensions.ts\<close>, lines 36 to 123. The function mutates the transaction it is given
  and returns it, or an exception escapes it (from the sampler, or from a conversion): the
  model returns the transaction as it is when the function is left, with the exception if
  there is one. \<open>random\<close> is the value \<^verbatim>\<open>Math.random()\<close> gives if it is called. Log
  messages are not modelled.

  \<open>sample_roll\<close> is the second half of the function (lines 82 to 122), from the
  validation of the candidate rate on; of the options it reads
  \<^verbatim>\<open>options._experiments?.maxSpans\<close> only, which it is given.
\<close>

definition sample_roll ::
  "js_runtime \<Rightarrow> js_value \<Rightarrow> js_value \<Rightarrow> real \<Rightarrow> transaction \<Rightarrow> transaction \<times> js_error option"
where
  "sample_roll rt max_spans sampleRate random t =
     (case isValidSampleRate rt sampleRate of
        Inl e \<Rightarrow> (t, Some e)
      | Inr valid \<Rightarrow>
          if \<not> valid then (t\<lparr>sampled := Some False\<rparr>, None)
          else if \<not> ToBoolean sampleRate then (t\<lparr>sampled := Some False\<rparr>, None)
          else
            (case js_greater rt sampleRate (Finite random) of
               Inl e \<Rightarrow> (t, Some e)
             | Inr keep \<Rightarrow>
                 let t' = t\<lparr>sampled := Some keep\<rparr>
                 in if \<not> keep then (t', None)
                    else (initSpanRecorder max_spans t', None)))"

definition sample ::
  "js_runtime \<Rightarrow> hub \<Rightarrow> transaction \<Rightarrow> sampling_context \<Rightarrow> real \<Rightarrow> transaction \<times> js_error option"
where
  "sample rt h t samplingContext random =
     (let opts = (case getClient h of
                    None \<Rightarrow> empty_options
                  | Some c \<Rightarrow> (case client_options c of None \<Rightarrow> empty_options | Some os \<Rightarrow> os))
      in
        if getClient h = None \<or> \<not> hasTracingEnabled opts then (t\<lparr>sampled := Some False\<rparr>, None)
        else if sampled t \<noteq> None then
          (setMetadata \<lparr>sampling_method = Explicit, rate = None\<rparr> t, None)
        else
          (case tracesSampler opts of
             Some (SamplerFunction f) \<Rightarrow>
               (case f samplingContext of
                  Inl e \<Rightarrow> (t, Some e)
                | Inr sampleRate \<Rightarrow>
                    (case NumberOf rt sampleRate of
                       Inl e \<Rightarrow> (t, Some e)
                     | Inr n \<Rightarrow>
                         sample_roll rt (maxSpans opts) sampleRate random
                           (setMetadata \<lparr>sampling_method = Sampler, rate = Some n\<rparr> t)))
           | _ \<Rightarrow>
               if parentSampled samplingContext \<noteq> Primitive Undefined then
                 sample_roll rt (maxSpans opts) (parentSampled samplingContext) random
                   (setMetadata \<lparr>sampling_method = Inheritance, rate = None\<rparr> t)
               else
                 (let sampleRate = (case tracesSampleRate opts of
                                      None \<Rightarrow> Primitive Undefined | Some v \<Rightarrow> v)
                  in case NumberOf rt sampleRate of
                       Inl e \<Rightarrow> (t, Some e)
                     | Inr n \<Rightarrow>
                         sample_roll rt (maxSpans opts) sampleRate random
                           (setMetadata \<lparr>sampling_method = Rate, rate = Some n\<rparr> t))))"


section \<open>Concrete inputs\<close>

text \<open>Inputs at which the theorems below are instantiated.\<close>

definition runtime0 :: js_runtime where
  "runtime0 = \<lparr>StringToNumber = (\<lambda>s. NaN), BigIntToNumber = (\<lambda>i. Finite (of_int i))\<rparr>"

definition transaction0 :: transaction where
  "transaction0 = \<lparr>sampled = None, transactionSampling = None, spanRecorder = None\<rparr>"

definition transaction_true :: transaction where
  "transaction_true = \<lparr>sampled = Some True, transactionSampling = None, spanRecorder = None\<rparr>"

definition context0 :: sampling_context where
  "context0 = \<lparr>parentSampled = Primitive Undefined\<rparr>"

definition context_parent_true :: sampling_context where
  "context_parent_true = \<lparr>parentSampled = Primitive (Boolean True)\<rparr>"

definition hub_of :: "options \<Rightarrow> hub" where
  "hub_of opts = \<lparr>getClient = Some \<lparr>client_options = Some opts\<rparr>\<rparr>"

definition hub_no_client :: hub where
  "hub_no_client = \<lparr>getClient = None\<rparr>"

definition constant_sampler :: "js_value \<Rightarrow> sampling_context \<Rightarrow> js_error + js_value" where
  "constant_sampler v ctx = Inr v"

definition options_sampler :: "js_value \<Rightarrow> options" where
  "options_sampler v =
     \<lparr>tracesSampleRate = Some (Primitive (Number (Finite 1))),
      tracesSampler = Some (SamplerFunction (constant_sampler v)),
      maxSpans = Primitive (Number (Finite 1000))\<rparr>"

definition options_rate :: "js_value \<Rightarrow> options" where
  "options_rate v =
     \<lparr>tracesSampleRate = Some v, tracesSampler = None, maxSpans = Primitive Undefined\<rparr>"

definition tracestate0 :: tracestateData where
  "tracestate0 =
     \<lparr>trace_id = ''4bf92f3577b34da6a3ce929d0e0e4736'', environment = IsString [],
      release = IsUndefined, public_key = ''dogsarebadatkeepingsecrets'',
      property_order = [''trace_id'', ''environment'', ''public_key'']\<rparr>"

definition tracestate_reordered :: tracestateData where
  "tracestate_reordered =
     \<lparr>trace_id = ''4bf92f3577b34da6a3ce929d0e0e4736'', environment = IsString ''prod'',
      release = IsString ''1.2.3'', public_key = ''dogsarebadatkeepingsecrets'',
      property_order = [''public_key'', ''release'', ''environment'', ''trace_id'']\<rparr>"

definition failing_encoder :: "string \<Rightarrow> js_error + string" where
  "failing_encoder plaintext = Inl TypeError"


section \<open>Properties of the matcher\<close>

lemma matcher_Repeat_zero [simp]: "matcher inp (Repeat lo (Some 0) r) x k = k x"
  by (subst matcher.simps(6)) simp

lemma matcher_Opt:
  "matcher inp (Opt r) x k =
     (case matcher inp r (fst x, clear (groups r) (snd x))
             (\<lambda>y. if length (fst x) \<le> length (fst y) then None else k y) of
        Some z \<Rightarrow> Some z
      | None \<Rightarrow> k x)"
  by (subst matcher.simps(6)) (simp cong: if_cong)

lemmas matcher_atoms = matcher.simps(1,3,4,5)

lemma matcher_Exactly_Class:
  "matcher inp (Exactly n (Class cs)) (s, caps) k =
     (if n \<le> length s \<and> set (take n s) \<subseteq> set cs then k (drop n s, caps) else None)"
proof (induction n arbitrary: s)
  case 0
  show ?case by simp
next
  case (Suc n)
  have "matcher inp (Exactly (Suc n) (Class cs)) (s, caps) k =
          (case s of [] \<Rightarrow> None
           | ch # rest \<Rightarrow>
               if ch \<in> set cs then matcher inp (Exactly n (Class cs)) (rest, caps) k else None)"
    by (subst matcher.simps(6)) (simp add: matcher_atoms split: list.split)
  then show ?case using Suc.IH by (cases s) auto
qed

lemma matcher_Star_Class:
  "matcher inp (Star (Class cs)) (s, caps) k =
     (case s of
        [] \<Rightarrow> k (s, caps)
      | ch # rest \<Rightarrow>
          if ch \<in> set cs then
            (case matcher inp (Star (Class cs)) (rest, caps) k of
               Some z \<Rightarrow> Some z
             | None \<Rightarrow> k (s, caps))
          else k (s, caps))"
  by (subst matcher.simps(6)) (cases s; simp add: matcher_atoms)

lemma matcher_Opt_Class:
  "matcher inp (Opt (Class cs)) (s, caps) k =
     (case s of
        [] \<Rightarrow> k (s, caps)
      | ch # rest \<Rightarrow>
          if ch \<in> set cs then
            (case k (rest, caps) of Some z \<Rightarrow> Some z | None \<Rightarrow> k (s, caps))
          else k (s, caps))"
  by (cases s) (auto simp add: matcher_Opt matcher_atoms split: option.split)

lemma matcher_Opt_Group_Class:
  "matcher inp (Opt (Group n (Class cs))) (s, caps) k =
     (case s of
        [] \<Rightarrow> k (s, caps)
      | ch # rest \<Rightarrow>
          if ch \<in> set cs then
            (case k (rest, caps(n := Some [ch])) of Some z \<Rightarrow> Some z | None \<Rightarrow> k (s, caps))
          else k (s, caps))"
  by (cases s) (auto simp add: matcher_Opt matcher_atoms split: option.split)

lemma matcher_Opt_Group_Exactly:
  "matcher inp (Opt (Group n (Exactly m (Class cs)))) (s, caps) k =
     (if 0 < m \<and> m \<le> length s \<and> set (take m s) \<subseteq> set cs then
        (case k (drop m s, caps(n := Some (take m s))) of
           Some z \<Rightarrow> Some z
         | None \<Rightarrow> k (s, caps))
      else k (s, caps))"
  by (cases m) (auto simp add: matcher_Opt matcher_Exactly_Class matcher_atoms)

lemma Star_Class_greedy:
  assumes "set w \<subseteq> set cs" and "rest = [] \<or> hd rest \<notin> set cs"
    and "k (rest, caps) = Some z"
  shows "matcher inp (Star (Class cs)) (w @ rest, caps) k = Some z"
  using assms
proof (induction w)
  case Nil
  then show ?case by (subst matcher_Star_Class) (auto split: list.split)
next
  case (Cons a w)
  then show ?case by (subst matcher_Star_Class) simp
qed

lemma Star_Class_sound:
  assumes "matcher inp (Star (Class cs)) (s, caps) k = Some z"
  shows "\<exists>u rest. s = u @ rest \<and> set u \<subseteq> set cs \<and> k (rest, caps) = Some z"
  using assms
proof (induction s)
  case Nil
  then show ?case by (subst (asm) matcher_Star_Class) simp
next
  case (Cons a s)
  from Cons.prems have
    "(a \<in> set cs \<and> matcher inp (Star (Class cs)) (s, caps) k = Some z) \<or> k (a # s, caps) = Some z"
    by (subst (asm) matcher_Star_Class) (auto split: if_splits option.splits)
  then show ?case
  proof
    assume h: "a \<in> set cs \<and> matcher inp (Star (Class cs)) (s, caps) k = Some z"
    with Cons.IH obtain u rest where "s = u @ rest" "set u \<subseteq> set cs" "k (rest, caps) = Some z"
      by blast
    with h have "a # s = (a # u) @ rest \<and> set (a # u) \<subseteq> set cs \<and> k (rest, caps) = Some z"
      by simp
    then show ?thesis by blast
  next
    assume "k (a # s, caps) = Some z"
    then have "a # s = [] @ (a # s) \<and> set [] \<subseteq> set cs \<and> k (a # s, caps) = Some z" by simp
    then show ?thesis by blast
  qed
qed

lemma matcher_Seq: "matcher inp (Seq a b) x k = matcher inp a x (\<lambda>y. matcher inp b y k)"
  by (simp add: matcher.simps)

lemma matcher_Seq_assoc:
  "matcher inp (Seq (Seq a b) c) x k = matcher inp (Seq a (Seq b c)) x k"
  by (simp add: matcher_Seq)

lemma matcher_LineEnd: "matcher inp LineEnd (s, caps) k = (if s = [] then k (s, caps) else None)"
  by (simp add: matcher.simps)

lemma forward_apply:
  "forward x k y = (if length (fst y) \<le> length (fst x) then k y else None)"
  by (simp add: forward_def)

lemma forward_forward:
  "length (fst y) \<le> length (fst x) \<Longrightarrow> forward y (forward x k) = forward y k"
  by (auto simp: forward_def fun_eq_iff)

lemma matcher_forward_aux:
  fixes k :: "match_state \<Rightarrow> match_state option"
  shows "\<forall>k'. matcher inp r x k' = matcher inp r x (forward x k')"
proof (induction inp r x k rule: matcher.induct)
  case (1 inp cs x k)
  show ?case by (auto simp: matcher.simps forward_def split: list.split)
next
  case (2 inp a b x k)
  show ?case
  proof
    fix k'
    have inner: "forward x (\<lambda>y. matcher inp b y k') = forward x (\<lambda>y. matcher inp b y (forward x k'))"
    proof
      fix y
      show "forward x (\<lambda>y. matcher inp b y k') y = forward x (\<lambda>y. matcher inp b y (forward x k')) y"
      proof (cases "length (fst y) \<le> length (fst x)")
        case True
        have "matcher inp b y k' = matcher inp b y (forward y k')" using 2(1) by blast
        moreover have "matcher inp b y (forward x k') = matcher inp b y (forward y (forward x k'))"
          using 2(1) by blast
        ultimately show ?thesis using True by (simp add: forward_forward forward_apply)
      next
        case False
        then show ?thesis by (simp add: forward_apply)
      qed
    qed
    have "matcher inp (Seq a b) x k' = matcher inp a x (forward x (\<lambda>y. matcher inp b y k'))"
      using 2(2) by (simp add: matcher.simps)
    also have "\<dots> = matcher inp a x (forward x (\<lambda>y. matcher inp b y (forward x k')))"
      by (simp only: inner)
    also have "\<dots> = matcher inp (Seq a b) x (forward x k')"
      using 2(2) by (simp add: matcher.simps)
    finally show "matcher inp (Seq a b) x k' = matcher inp (Seq a b) x (forward x k')" .
  qed
next
  case (3 inp n r x k)
  show ?case
  proof
    fix k'
    let ?c = "\<lambda>k y. k (fst y, (snd y)(n := Some (take (length (fst x) - length (fst y)) (fst x))))"
    have "forward x (?c k') = forward x (?c (forward x k'))"
      by (auto simp: forward_def fun_eq_iff)
    moreover have "matcher inp r x (?c k') = matcher inp r x (forward x (?c k'))"
      "matcher inp r x (?c (forward x k')) = matcher inp r x (forward x (?c (forward x k')))"
      using 3 by blast+
    ultimately show "matcher inp (Group n r) x k' = matcher inp (Group n r) x (forward x k')"
      by (simp add: matcher.simps)
  qed
next
  case (4 inp x k)
  show ?case by (simp add: matcher.simps forward_def)
next
  case (5 inp x k)
  show ?case by (simp add: matcher.simps forward_def)
next
  case (6 inp lo hi r x k)
  show ?case
  proof
    fix k'
    show "matcher inp (Repeat lo hi r) x k' = matcher inp (Repeat lo hi r) x (forward x k')"
    proof (cases "hi = Some 0")
      case True
      then show ?thesis by (simp add: forward_apply)
    next
      case False
      let ?next = "Repeat (lo - 1) (map_option (\<lambda>m. m - 1) hi) r"
      let ?d = "\<lambda>k y. if lo = 0 \<and> length (fst x) \<le> length (fst y) then None
                      else matcher inp ?next y k"
      let ?xr = "(fst x, clear (groups r) (snd x))"
      have unfold: "matcher inp (Repeat lo hi r) x c =
                      (if lo \<noteq> 0 then matcher inp r ?xr (?d c)
                       else (case matcher inp r ?xr (?d c) of Some z \<Rightarrow> Some z | None \<Rightarrow> c x))"
        for c
        using False by (subst matcher.simps(6)) (simp only: Let_def if_False)
      have body: "matcher inp r ?xr c = matcher inp r ?xr (forward ?xr c)" for c
      proof (cases "lo = 0")
        case True
        then have "\<not> lo \<noteq> 0" by simp
        from 6(3) [OF False refl refl this] show ?thesis by blast
      next
        case nz: False
        from 6(2) [OF False refl refl nz] show ?thesis by blast
      qed
      have inner: "forward ?xr (?d k') = forward ?xr (?d (forward x k'))"
      proof
        fix y
        show "forward ?xr (?d k') y = forward ?xr (?d (forward x k')) y"
        proof (cases "length (fst y) \<le> length (fst x) \<and>
                      \<not> (lo = 0 \<and> length (fst x) \<le> length (fst y))")
          case True
          then have nog: "\<not> (lo = 0 \<and> length (fst x) \<le> length (fst y))" by simp
          from 6(1) [OF False nog] have
            "matcher inp ?next y k' = matcher inp ?next y (forward y k')"
            "matcher inp ?next y (forward x k') = matcher inp ?next y (forward y (forward x k'))"
            by blast+
          moreover have "forward y (forward x k') = forward y k'"
            using True by (intro forward_forward) simp
          ultimately have "matcher inp ?next y k' = matcher inp ?next y (forward x k')" by simp
          then show ?thesis using nog by (simp only: forward_apply if_False)
        next
          case False
          then show ?thesis by (auto simp only: forward_apply fst_conv split: if_splits)
        qed
      qed
      have "matcher inp r ?xr (?d k') = matcher inp r ?xr (forward ?xr (?d k'))"
        by (rule body)
      also have "\<dots> = matcher inp r ?xr (forward ?xr (?d (forward x k')))"
        by (simp only: inner)
      also have "\<dots> = matcher inp r ?xr (?d (forward x k'))"
        by (rule body [symmetric])
      finally have step: "matcher inp r ?xr (?d k') = matcher inp r ?xr (?d (forward x k'))" .
      have here: "forward x k' x = k' x" by (simp add: forward_apply)
      show ?thesis by (simp only: unfold step here)
    qed
  qed
qed

lemma matcher_forward:
  "matcher inp r x k =
     matcher inp r x (\<lambda>y. if length (fst y) \<le> length (fst x) then k y else None)"
  using matcher_forward_aux [of inp r x] by (simp add: forward_def)


section \<open>Properties of the trace header decoder\<close>

lemma whitespace_not_hex: "c \<in> set whitespace \<Longrightarrow> c \<notin> set hex_digits"
  by (auto simp: whitespace_def hex_digits_def)

lemma whitespace_not_dash: "c \<in> set whitespace \<Longrightarrow> c \<noteq> CHR ''-''"
  by (auto simp: whitespace_def)

lemma whitespace_not_flag: "c \<in> set whitespace \<Longrightarrow> c \<notin> set ''01''"
  by (auto simp: whitespace_def)

lemma hex_not_whitespace: "c \<in> set hex_digits \<Longrightarrow> c \<notin> set whitespace"
  by (auto simp: whitespace_def hex_digits_def)

lemma hex_not_dash: "c \<in> set hex_digits \<Longrightarrow> c \<noteq> CHR ''-''"
  by (auto simp: hex_digits_def)

lemma decode_end:
  assumes "is_whitespace w"
  shows "matcher inp re_end (w, caps) Some = Some ([], caps)"
proof -
  have "matcher inp (Star (Class whitespace)) (w @ [], caps) (\<lambda>y. matcher inp LineEnd y Some)
          = Some ([], caps)"
    by (rule Star_Class_greedy) (use assms in \<open>simp_all add: is_whitespace_def matcher_LineEnd\<close>)
  then show ?thesis by (simp add: matcher_Seq)
qed

lemma decode_sampled:
  assumes "f = [] \<or> f = ''0'' \<or> f = ''1''" and "is_whitespace w"
  shows "matcher inp re_sampled (f @ w, caps) Some = Some ([], put 3 f caps)"
proof -
  have tail: "\<And>c. matcher inp re_end (w, c) Some = Some ([], c)"
    using assms(2) by (rule decode_end)
  show ?thesis
  proof (cases "f = []")
    case True
    have "w = [] \<or> hd w \<notin> set ''01''"
      using assms(2) whitespace_not_flag by (cases w) (auto simp: is_whitespace_def)
    then show ?thesis using True tail
      by (subst matcher_Seq, subst matcher_Opt_Group_Class) (auto simp: put_def split: list.split)
  next
    case False
    then show ?thesis using assms(1) tail
      by (subst matcher_Seq, subst matcher_Opt_Group_Class) (auto simp: put_def)
  qed
qed

lemma decode_dash2:
  assumes "h2 = [] \<or> h2 = ''-''" and "f = [] \<or> f = ''0'' \<or> f = ''1''" and "is_whitespace w"
  shows "matcher inp re_dash2 (h2 @ f @ w, caps) Some = Some ([], put 3 f caps)"
proof -
  have tail: "\<And>c. matcher inp re_sampled (f @ w, c) Some = Some ([], put 3 f c)"
    using assms(2,3) by (rule decode_sampled)
  show ?thesis
  proof (cases "h2 = []")
    case True
    have "f @ w = [] \<or> hd (f @ w) \<noteq> CHR ''-''"
      using assms(2,3) whitespace_not_dash by (cases w) (auto simp: is_whitespace_def)
    then show ?thesis using True tail
      by (subst matcher_Seq, subst matcher_Opt_Class) (auto split: list.split)
  next
    case False
    then show ?thesis using assms(1) tail
      by (subst matcher_Seq, subst matcher_Opt_Class) auto
  qed
qed

lemma prefix_class_mono:
  assumes "m \<le> length s" and "set (take m s) \<subseteq> A" and "n \<le> m"
  shows "n \<le> length s \<and> set (take n s) \<subseteq> A"
  using assms set_take_subset_set_take [of n m s] by auto

lemma short_hex_run:
  assumes "h2 = [] \<or> h2 = ''-''" and "f = [] \<or> f = ''0'' \<or> f = ''1''" and "is_whitespace w"
  shows "\<not> (2 \<le> length (h2 @ f @ w) \<and> set (take 2 (h2 @ f @ w)) \<subseteq> set hex_digits)"
proof (cases w)
  case Nil
  then show ?thesis using assms(1,2) by (auto simp: hex_digits_def)
next
  case (Cons c w')
  then have "c \<notin> set hex_digits"
    using assms(3) whitespace_not_hex by (simp add: is_whitespace_def)
  moreover have "CHR ''-'' \<notin> set hex_digits" by (simp add: hex_digits_def)
  ultimately show ?thesis using assms(1,2) Cons by (auto simp: numeral_2_eq_2)
qed

lemma decode_span:
  assumes "p = [] \<or> is_hex 16 p" and "h2 = [] \<or> h2 = ''-''"
    and "f = [] \<or> f = ''0'' \<or> f = ''1''" and "is_whitespace w"
  shows "matcher inp re_span (p @ h2 @ f @ w, caps) Some = Some ([], put 3 f (put 2 p caps))"
proof -
  have tail: "\<And>c. matcher inp re_dash2 (h2 @ f @ w, c) Some = Some ([], put 3 f c)"
    using assms(2-4) by (rule decode_dash2)
  show ?thesis
  proof (cases "p = []")
    case True
    have "\<not> (16 \<le> length (h2 @ f @ w) \<and> set (take 16 (h2 @ f @ w)) \<subseteq> set hex_digits)"
      using short_hex_run [OF assms(2-4)] prefix_class_mono [of 16 "h2 @ f @ w" _ 2] by auto
    then show ?thesis using True tail
      by (subst matcher_Seq, subst matcher_Opt_Group_Exactly) (auto simp: put_def)
  next
    case False
    then have "is_hex 16 p" using assms(1) by simp
    then show ?thesis using False tail
      by (subst matcher_Seq, subst matcher_Opt_Group_Exactly) (auto simp: put_def is_hex_def)
  qed
qed

lemma decode_dash1:
  assumes "h1 = [] \<or> h1 = ''-''" and "p = [] \<or> is_hex 16 p" and "h2 = [] \<or> h2 = ''-''"
    and "f = [] \<or> f = ''0'' \<or> f = ''1''" and "is_whitespace w"
  shows "matcher inp re_dash1 (h1 @ p @ h2 @ f @ w, caps) Some =
           Some ([], put 3 f (put 2 p caps))"
proof -
  have tail: "\<And>c. matcher inp re_span (p @ h2 @ f @ w, c) Some = Some ([], put 3 f (put 2 p c))"
    using assms(2-5) by (rule decode_span)
  have tail0: "\<And>c. matcher inp re_span (f @ w, c) Some = Some ([], put 3 f (put 2 [] c))"
    using decode_span [of "[]" "[]" f w] assms(4,5) by simp
  show ?thesis
  proof (cases "h1 = []")
    case False
    then show ?thesis using assms(1) tail
      by (subst matcher_Seq, subst matcher_Opt_Class) auto
  next
    case True
    show ?thesis
    proof (cases "p = []")
      case False
      then have "is_hex 16 p" using assms(2) by simp
      then obtain c p' where p: "p = c # p'" and "c \<in> set hex_digits"
        by (cases p) (auto simp: is_hex_def)
      then have "c \<noteq> CHR ''-''" using hex_not_dash by blast
      then show ?thesis using True p tail
        by (subst matcher_Seq, subst matcher_Opt_Class) auto
    next
      case pe: True
      show ?thesis
      proof (cases "h2 = []")
        case False
        then have "h2 = ''-''" using assms(3) by simp
        then show ?thesis using True pe tail0
          by (subst matcher_Seq, subst matcher_Opt_Class) (auto simp: put_def)
      next
        case he: True
        have "f @ w = [] \<or> hd (f @ w) \<noteq> CHR ''-''"
          using assms(4,5) whitespace_not_dash by (cases w) (auto simp: is_whitespace_def)
        then show ?thesis using True pe he tail0
          by (subst matcher_Seq, subst matcher_Opt_Class) (auto simp: put_def split: list.split)
      qed
    qed
  qed
qed

lemma long_hex_run_absent:
  assumes "h1 = [] \<or> h1 = ''-''" and "p = [] \<or> is_hex 16 p" and "h2 = [] \<or> h2 = ''-''"
    and "f = [] \<or> f = ''0'' \<or> f = ''1''" and "is_whitespace w"
  shows "\<not> (32 \<le> length (h1 @ p @ h2 @ f @ w) \<and>
            set (take 32 (h1 @ p @ h2 @ f @ w)) \<subseteq> set hex_digits)"
proof
  let ?s = "h1 @ p @ h2 @ f @ w"
  assume run: "32 \<le> length ?s \<and> set (take 32 ?s) \<subseteq> set hex_digits"
  show False
  proof (cases "h1 = []")
    case False
    then have "h1 = ''-''" using assms(1) by simp
    moreover have "1 \<le> length ?s \<and> set (take 1 ?s) \<subseteq> set hex_digits"
      using run prefix_class_mono [of 32 ?s _ 1] by auto
    ultimately show False by (simp add: hex_digits_def)
  next
    case True
    show False
    proof (cases "p = []")
      case pe: True
      have "2 \<le> length ?s \<and> set (take 2 ?s) \<subseteq> set hex_digits"
        using run prefix_class_mono [of 32 ?s _ 2] by auto
      then show False using short_hex_run [OF assms(3-5)] True pe by simp
    next
      case False
      then have p: "length p = 16" using assms(2) by (simp add: is_hex_def)
      have "18 \<le> length ?s \<and> set (take 18 ?s) \<subseteq> set hex_digits"
        using run prefix_class_mono [of 32 ?s _ 18] by auto
      then have "2 \<le> length (h2 @ f @ w) \<and> set (take 2 (h2 @ f @ w)) \<subseteq> set hex_digits"
        using True p by simp
      then show False using short_hex_run [OF assms(3-5)] by simp
    qed
  qed
qed

lemma decode_trace:
  assumes "t = [] \<or> is_hex 32 t" and "h1 = [] \<or> h1 = ''-''" and "p = [] \<or> is_hex 16 p"
    and "h2 = [] \<or> h2 = ''-''" and "f = [] \<or> f = ''0'' \<or> f = ''1''" and "is_whitespace w"
  shows "matcher inp re_trace (t @ h1 @ p @ h2 @ f @ w, caps) Some =
           Some ([], put 3 f (put 2 p (put 1 t caps)))"
proof -
  have tail: "\<And>c. matcher inp re_dash1 (h1 @ p @ h2 @ f @ w, c) Some =
                  Some ([], put 3 f (put 2 p c))"
    using assms(2-6) by (rule decode_dash1)
  show ?thesis
  proof (cases "t = []")
    case True
    then show ?thesis using long_hex_run_absent [OF assms(2-6)] tail
      by (subst matcher_Seq, subst matcher_Opt_Group_Exactly) (auto simp: put_def)
  next
    case False
    then have "is_hex 32 t" using assms(1) by simp
    then show ?thesis using False tail
      by (subst matcher_Seq, subst matcher_Opt_Group_Exactly) (auto simp: put_def is_hex_def)
  qed
qed

lemma decode_start:
  assumes "is_whitespace w1" and "t = [] \<or> is_hex 32 t" and "h1 = [] \<or> h1 = ''-''"
    and "p = [] \<or> is_hex 16 p" and "h2 = [] \<or> h2 = ''-''"
    and "f = [] \<or> f = ''0'' \<or> f = ''1''" and "is_whitespace w2"
  shows "matcher inp re_start (w1 @ t @ h1 @ p @ h2 @ f @ w2, caps) Some =
           Some ([], put 3 f (put 2 p (put 1 t caps)))"
proof -
  let ?body = "t @ h1 @ p @ h2 @ f"
  let ?k = "\<lambda>y. matcher inp re_trace y Some"
  have tail: "?k (?body @ w2, caps) = Some ([], put 3 f (put 2 p (put 1 t caps)))"
    using decode_trace [OF assms(2-7)] by simp
  show ?thesis
  proof (cases "?body = []")
    case True
    have "?k ([], caps) = Some ([], caps)"
      using decode_trace [of "[]" "[]" "[]" "[]" "[]" "[]" inp caps]
      by (simp add: is_whitespace_def put_def)
    moreover have "set (w1 @ w2) \<subseteq> set whitespace"
      using assms(1,7) by (simp add: is_whitespace_def)
    ultimately have "matcher inp (Star (Class whitespace)) ((w1 @ w2) @ [], caps) ?k =
                       Some ([], caps)"
      by (intro Star_Class_greedy) simp_all
    then show ?thesis using True by (simp add: matcher_Seq put_def)
  next
    case False
    have "hd (?body @ w2) \<notin> set whitespace"
    proof -
      have "hd (?body @ w2) = hd ?body" using False by (rule hd_append2)
      moreover have "hd ?body \<in> set hex_digits \<or> hd ?body = CHR ''-'' \<or> hd ?body \<in> set ''01''"
        using False assms(2-6) by (cases t; cases p) (auto simp: is_hex_def)
      ultimately show ?thesis
        using hex_not_whitespace whitespace_not_dash whitespace_not_flag by metis
    qed
    then have "matcher inp (Star (Class whitespace)) (w1 @ (?body @ w2), caps) ?k =
                 Some ([], put 3 f (put 2 p (put 1 t caps)))"
      using assms(1) tail by (intro Star_Class_greedy) (simp_all add: is_whitespace_def)
    then show ?thesis by (simp add: matcher_Seq)
  qed
qed

lemma first_match_at_start:
  assumes "matcher inp r (inp, no_captures) Some = Some y"
  shows "first_match r inp [0..<Suc (length inp)] = Some (0, y)"
proof -
  have "[0..<Suc (length inp)] = 0 # [Suc 0..<Suc (length inp)]"
    by (rule upt_conv_Cons) simp
  then show ?thesis using assms by simp
qed

lemma first_match_sound:
  assumes "first_match r inp is = Some m"
  shows "matcher inp r (drop (fst m) inp, no_captures) Some = Some (snd m)"
  using assms by (induction "is") (auto split: option.splits)

lemma matcher_anchored:
  "matcher inp (Seq LineStart r) (drop i inp, caps) k = Some y \<Longrightarrow>
     matcher inp r (inp, caps) k = Some y"
proof -
  assume m: "matcher inp (Seq LineStart r) (drop i inp, caps) k = Some y"
  then have "length (drop i inp) = length inp"
    by (simp add: matcher_Seq matcher_atoms split: if_splits)
  then have "length inp - i = length inp" by simp
  then have "i = 0 \<or> length inp = 0" by arith
  then have "drop i inp = inp" by auto
  with m show ?thesis by (simp add: matcher_Seq matcher_atoms)
qed

lemma string_match_decode:
  assumes "is_whitespace w1" and "t = [] \<or> is_hex 32 t" and "h1 = [] \<or> h1 = ''-''"
    and "p = [] \<or> is_hex 16 p" and "h2 = [] \<or> h2 = ''-''"
    and "f = [] \<or> f = ''0'' \<or> f = ''1''" and "is_whitespace w2"
  shows "string_match (w1 @ t @ h1 @ p @ h2 @ f @ w2) TRACEPARENT_REGEXP =
           Some (put 3 f (put 2 p (put 1 t no_captures)))"
proof -
  let ?inp = "w1 @ t @ h1 @ p @ h2 @ f @ w2"
  have "matcher ?inp TRACEPARENT_REGEXP (?inp, no_captures) Some =
          matcher ?inp re_start (?inp, no_captures) Some"
    unfolding TRACEPARENT_REGEXP_def
    by (subst matcher_Seq, subst matcher.simps(4)) simp
  also have "\<dots> = Some ([], put 3 f (put 2 p (put 1 t no_captures)))"
    by (rule decode_start [OF assms])
  finally have "first_match TRACEPARENT_REGEXP ?inp [0..<Suc (length ?inp)] =
                  Some (0, [], put 3 f (put 2 p (put 1 t no_captures)))"
    by (rule first_match_at_start)
  then show ?thesis unfolding string_match_def regexp_exec_def by simp
qed

lemma extract_decode:
  assumes "is_whitespace w1" and "t = [] \<or> is_hex 32 t" and "h1 = [] \<or> h1 = ''-''"
    and "p = [] \<or> is_hex 16 p" and "h2 = [] \<or> h2 = ''-''"
    and "f = [] \<or> f = ''0'' \<or> f = ''1''" and "is_whitespace w2"
  shows "extractTraceparentData (w1 @ t @ h1 @ p @ h2 @ f @ w2) =
           Some \<lparr>traceId = (if t = [] then None else Some t),
                 TraceparentData.parentSampled = (if f = [] then None else Some (f = ''1'')),
                 parentSpanId = (if p = [] then None else Some p)\<rparr>"
  using assms(6)
  by (auto simp: extractTraceparentData_def string_match_decode [OF assms] put_def no_captures_def)

lemma Opt_Class_sound:
  assumes "matcher inp (Opt (Class cs)) (s, caps) k = Some z"
  shows "\<exists>h rest. s = h @ rest \<and> (h = [] \<or> (\<exists>c. h = [c] \<and> c \<in> set cs)) \<and>
           k (rest, caps) = Some z"
proof (cases "k (s, caps) = Some z")
  case True
  then have "s = [] @ s \<and> k (s, caps) = Some z" by simp
  then show ?thesis by blast
next
  case False
  with assms obtain c rest where "s = c # rest" "c \<in> set cs" "k (rest, caps) = Some z"
    by (subst (asm) matcher_Opt_Class) (auto split: list.splits if_splits option.splits)
  then have "s = [c] @ rest \<and> c \<in> set cs \<and> k (rest, caps) = Some z" by simp
  then show ?thesis by blast
qed

lemma Opt_Group_Class_sound:
  assumes "matcher inp (Opt (Group n (Class cs))) (s, caps) k = Some z"
  shows "\<exists>h rest caps'. s = h @ rest \<and> (h = [] \<or> (\<exists>c. h = [c] \<and> c \<in> set cs)) \<and>
           k (rest, caps') = Some z"
proof (cases "k (s, caps) = Some z")
  case True
  then have "s = [] @ s \<and> k (s, caps) = Some z" by simp
  then show ?thesis by blast
next
  case False
  with assms obtain c rest where
    "s = c # rest" "c \<in> set cs" "k (rest, caps(n := Some [c])) = Some z"
    by (subst (asm) matcher_Opt_Group_Class) (auto split: list.splits if_splits option.splits)
  then have "s = [c] @ rest \<and> c \<in> set cs \<and> k (rest, caps(n := Some [c])) = Some z" by simp
  then show ?thesis by blast
qed

lemma Opt_Group_Exactly_sound:
  assumes "matcher inp (Opt (Group n (Exactly m (Class cs)))) (s, caps) k = Some z"
  shows "\<exists>h rest caps'. s = h @ rest \<and> (h = [] \<or> (length h = m \<and> set h \<subseteq> set cs)) \<and>
           k (rest, caps') = Some z"
proof (cases "k (s, caps) = Some z")
  case True
  then have "s = [] @ s \<and> k (s, caps) = Some z" by simp
  then show ?thesis by blast
next
  case False
  with assms have "m \<le> length s \<and> set (take m s) \<subseteq> set cs \<and>
      k (drop m s, caps(n := Some (take m s))) = Some z"
    by (subst (asm) matcher_Opt_Group_Exactly) (auto split: if_splits option.splits)
  then have "s = take m s @ drop m s \<and> length (take m s) = m \<and> set (take m s) \<subseteq> set cs \<and>
      k (drop m s, caps(n := Some (take m s))) = Some z"
    by simp
  then show ?thesis by blast
qed

lemma sound_end:
  assumes "matcher inp re_end (s, caps) Some = Some z"
  shows "is_whitespace s"
proof -
  from assms have "matcher inp (Star (Class whitespace)) (s, caps)
      (\<lambda>y. matcher inp LineEnd y Some) = Some z"
    by (simp add: matcher_Seq)
  from Star_Class_sound [OF this] obtain u rest where
    "s = u @ rest" "set u \<subseteq> set whitespace" "matcher inp LineEnd (rest, caps) Some = Some z"
    by blast
  then show ?thesis by (auto simp: matcher_LineEnd is_whitespace_def split: if_splits)
qed

lemma sound_sampled:
  assumes "matcher inp re_sampled (s, caps) Some = Some z"
  shows "\<exists>f w. s = f @ w \<and> (f = [] \<or> f = ''0'' \<or> f = ''1'') \<and> is_whitespace w"
proof -
  from assms have "matcher inp (Opt (Group 3 (Class ''01''))) (s, caps)
      (\<lambda>y. matcher inp re_end y Some) = Some z"
    by (simp add: matcher_Seq)
  from Opt_Group_Class_sound [OF this] obtain f w c where
    "s = f @ w" "f = [] \<or> (\<exists>c. f = [c] \<and> c \<in> set ''01'')"
    "matcher inp re_end (w, c) Some = Some z"
    by blast
  then have "s = f @ w \<and> (f = [] \<or> f = ''0'' \<or> f = ''1'') \<and> is_whitespace w"
    using sound_end by auto
  then show ?thesis by blast
qed

lemma sound_dash2:
  assumes "matcher inp re_dash2 (s, caps) Some = Some z"
  shows "\<exists>h2 f w. s = h2 @ f @ w \<and> (h2 = [] \<or> h2 = ''-'') \<and>
           (f = [] \<or> f = ''0'' \<or> f = ''1'') \<and> is_whitespace w"
proof -
  from assms have "matcher inp (Opt (Class ''-'')) (s, caps)
      (\<lambda>y. matcher inp re_sampled y Some) = Some z"
    by (simp add: matcher_Seq)
  from Opt_Class_sound [OF this] obtain h2 r where
    "s = h2 @ r" "h2 = [] \<or> (\<exists>c. h2 = [c] \<and> c \<in> set ''-'')"
    "matcher inp re_sampled (r, caps) Some = Some z"
    by blast
  moreover from sound_sampled [OF this(3)] obtain f w where
    "r = f @ w" "f = [] \<or> f = ''0'' \<or> f = ''1''" "is_whitespace w"
    by blast
  ultimately have "s = h2 @ f @ w \<and> (h2 = [] \<or> h2 = ''-'') \<and>
           (f = [] \<or> f = ''0'' \<or> f = ''1'') \<and> is_whitespace w"
    by auto
  then show ?thesis by blast
qed

lemma sound_span:
  assumes "matcher inp re_span (s, caps) Some = Some z"
  shows "\<exists>p h2 f w. s = p @ h2 @ f @ w \<and> (p = [] \<or> is_hex 16 p) \<and> (h2 = [] \<or> h2 = ''-'') \<and>
           (f = [] \<or> f = ''0'' \<or> f = ''1'') \<and> is_whitespace w"
proof -
  from assms have "matcher inp (Opt (Group 2 (Exactly 16 (Class hex_digits)))) (s, caps)
      (\<lambda>y. matcher inp re_dash2 y Some) = Some z"
    by (simp add: matcher_Seq)
  from Opt_Group_Exactly_sound [OF this] obtain p r c where
    "s = p @ r" "p = [] \<or> (length p = 16 \<and> set p \<subseteq> set hex_digits)"
    "matcher inp re_dash2 (r, c) Some = Some z"
    by blast
  moreover from sound_dash2 [OF this(3)] obtain h2 f w where
    "r = h2 @ f @ w" "h2 = [] \<or> h2 = ''-''" "f = [] \<or> f = ''0'' \<or> f = ''1''" "is_whitespace w"
    by blast
  ultimately have "s = p @ h2 @ f @ w \<and> (p = [] \<or> is_hex 16 p) \<and> (h2 = [] \<or> h2 = ''-'') \<and>
           (f = [] \<or> f = ''0'' \<or> f = ''1'') \<and> is_whitespace w"
    by (auto simp: is_hex_def)
  then show ?thesis by blast
qed

lemma sound_dash1:
  assumes "matcher inp re_dash1 (s, caps) Some = Some z"
  shows "\<exists>h1 p h2 f w. s = h1 @ p @ h2 @ f @ w \<and> (h1 = [] \<or> h1 = ''-'') \<and>
           (p = [] \<or> is_hex 16 p) \<and> (h2 = [] \<or> h2 = ''-'') \<and>
           (f = [] \<or> f = ''0'' \<or> f = ''1'') \<and> is_whitespace w"
proof -
  from assms have "matcher inp (Opt (Class ''-'')) (s, caps)
      (\<lambda>y. matcher inp re_span y Some) = Some z"
    by (simp add: matcher_Seq)
  from Opt_Class_sound [OF this] obtain h1 r where
    "s = h1 @ r" "h1 = [] \<or> (\<exists>c. h1 = [c] \<and> c \<in> set ''-'')"
    "matcher inp re_span (r, caps) Some = Some z"
    by blast
  moreover from sound_span [OF this(3)] obtain p h2 f w where
    "r = p @ h2 @ f @ w" "p = [] \<or> is_hex 16 p" "h2 = [] \<or> h2 = ''-''"
    "f = [] \<or> f = ''0'' \<or> f = ''1''" "is_whitespace w"
    by blast
  ultimately have "s = h1 @ p @ h2 @ f @ w \<and> (h1 = [] \<or> h1 = ''-'') \<and>
           (p = [] \<or> is_hex 16 p) \<and> (h2 = [] \<or> h2 = ''-'') \<and>
           (f = [] \<or> f = ''0'' \<or> f = ''1'') \<and> is_whitespace w"
    by auto
  then show ?thesis by blast
qed

lemma sound_trace:
  assumes "matcher inp re_trace (s, caps) Some = Some z"
  shows "\<exists>t h1 p h2 f w. s = t @ h1 @ p @ h2 @ f @ w \<and> (t = [] \<or> is_hex 32 t) \<and>
           (h1 = [] \<or> h1 = ''-'') \<and> (p = [] \<or> is_hex 16 p) \<and> (h2 = [] \<or> h2 = ''-'') \<and>
           (f = [] \<or> f = ''0'' \<or> f = ''1'') \<and> is_whitespace w"
proof -
  from assms have "matcher inp (Opt (Group 1 (Exactly 32 (Class hex_digits)))) (s, caps)
      (\<lambda>y. matcher inp re_dash1 y Some) = Some z"
    by (simp add: matcher_Seq)
  from Opt_Group_Exactly_sound [OF this] obtain t r c where
    "s = t @ r" "t = [] \<or> (length t = 32 \<and> set t \<subseteq> set hex_digits)"
    "matcher inp re_dash1 (r, c) Some = Some z"
    by blast
  moreover from sound_dash1 [OF this(3)] obtain h1 p h2 f w where
    "r = h1 @ p @ h2 @ f @ w" "h1 = [] \<or> h1 = ''-''" "p = [] \<or> is_hex 16 p"
    "h2 = [] \<or> h2 = ''-''" "f = [] \<or> f = ''0'' \<or> f = ''1''" "is_whitespace w"
    by blast
  ultimately have "s = t @ h1 @ p @ h2 @ f @ w \<and> (t = [] \<or> is_hex 32 t) \<and>
           (h1 = [] \<or> h1 = ''-'') \<and> (p = [] \<or> is_hex 16 p) \<and> (h2 = [] \<or> h2 = ''-'') \<and>
           (f = [] \<or> f = ''0'' \<or> f = ''1'') \<and> is_whitespace w"
    by (auto simp: is_hex_def)
  then show ?thesis by blast
qed

lemma sound_start:
  assumes "matcher inp re_start (s, caps) Some = Some z"
  shows "traceparent_grammar s"
proof -
  from assms have "matcher inp (Star (Class whitespace)) (s, caps)
      (\<lambda>y. matcher inp re_trace y Some) = Some z"
    by (simp add: matcher_Seq)
  from Star_Class_sound [OF this] obtain w1 r where
    "s = w1 @ r" "set w1 \<subseteq> set whitespace" "matcher inp re_trace (r, caps) Some = Some z"
    by blast
  moreover from sound_trace [OF this(3)] obtain t h1 p h2 f w where
    "r = t @ h1 @ p @ h2 @ f @ w" "t = [] \<or> is_hex 32 t" "h1 = [] \<or> h1 = ''-''"
    "p = [] \<or> is_hex 16 p" "h2 = [] \<or> h2 = ''-''" "f = [] \<or> f = ''0'' \<or> f = ''1''"
    "is_whitespace w"
    by blast
  ultimately have "s = w1 @ t @ h1 @ p @ h2 @ f @ w \<and> is_whitespace w1 \<and>
           (t = [] \<or> is_hex 32 t) \<and>
           (h1 = [] \<or> h1 = ''-'') \<and> (p = [] \<or> is_hex 16 p) \<and> (h2 = [] \<or> h2 = ''-'') \<and>
           (f = [] \<or> f = ''0'' \<or> f = ''1'') \<and> is_whitespace w"
    by (auto simp: is_whitespace_def)
  then show ?thesis unfolding traceparent_grammar_def by blast
qed

lemma extract_sound:
  assumes "extractTraceparentData s = Some d"
  shows "traceparent_grammar s"
proof -
  from assms obtain m where "first_match TRACEPARENT_REGEXP s [0..<Suc (length s)] = Some m"
    by (auto simp: extractTraceparentData_def string_match_def regexp_exec_def
        split: option.splits)
  from first_match_sound [OF this] have
    "matcher s TRACEPARENT_REGEXP (drop (fst m) s, no_captures) Some = Some (snd m)" .
  then have "matcher s re_start (s, no_captures) Some = Some (snd m)"
    unfolding TRACEPARENT_REGEXP_def by (rule matcher_anchored)
  then show ?thesis by (rule sound_start)
qed

lemma extract_complete:
  assumes "traceparent_grammar s"
  shows "\<exists>d. extractTraceparentData s = Some d"
proof -
  from assms obtain w1 t h1 p h2 f w2 where
    "s = w1 @ t @ h1 @ p @ h2 @ f @ w2" "is_whitespace w1" "t = [] \<or> is_hex 32 t"
    "h1 = [] \<or> h1 = ''-''" "p = [] \<or> is_hex 16 p" "h2 = [] \<or> h2 = ''-''"
    "f = [] \<or> f = ''0'' \<or> f = ''1''" "is_whitespace w2"
    unfolding traceparent_grammar_def by blast
  then show ?thesis using extract_decode [of w1 t h1 p h2 f w2] by simp
qed

text \<open>
  C7. \<^verbatim>\<open>extractTraceparentData\<close> returns a result exactly for the strings of the grammar.
  For a trace id \<open>T\<close> of 32 hexadecimal digits, a span id \<open>S\<close> of 16 and a flag \<open>f\<close> that
  is \<open>0\<close> or \<open>1\<close>, the string \<open>T-S-f\<close> decodes to \<open>T\<close>, \<open>S\<close> and the boolean \<open>f = 1\<close>;
  without the flag (\<open>T-S\<close>) \<^verbatim>\<open>parentSampled\<close> is undefined. A string outside the grammar
  decodes to no result (the first conjunct, read from right to left). The hexadecimal
  digits are those of the pattern, \<^verbatim>\<open>[0-9a-f]\<close>: an identifier written with capital letters
  is outside the grammar (\<open>rejected_uppercase\<close>).
\<close>

theorem extractTraceparentData_grammar:
  "(extractTraceparentData s \<noteq> None \<longleftrightarrow> traceparent_grammar s) \<and>
   (is_hex 32 T \<and> is_hex 16 S \<and> (f = ''0'' \<or> f = ''1'') \<longrightarrow>
      extractTraceparentData (T @ ''-'' @ S @ ''-'' @ f) =
        Some \<lparr>traceId = Some T, TraceparentData.parentSampled = Some (f = ''1''),
              parentSpanId = Some S\<rparr> \<and>
      extractTraceparentData (T @ ''-'' @ S) =
        Some \<lparr>traceId = Some T, TraceparentData.parentSampled = None, parentSpanId = Some S\<rparr>)"
proof (intro conjI impI)
  show "extractTraceparentData s \<noteq> None \<longleftrightarrow> traceparent_grammar s"
    using extract_sound [of s] extract_complete [of s] by auto
next
  assume h: "is_hex 32 T \<and> is_hex 16 S \<and> (f = ''0'' \<or> f = ''1'')"
  then have T: "T \<noteq> []" and S: "S \<noteq> []" and f: "f \<noteq> []"
    by (auto simp: is_hex_def)
  show "extractTraceparentData (T @ ''-'' @ S @ ''-'' @ f) =
        Some \<lparr>traceId = Some T, TraceparentData.parentSampled = Some (f = ''1''),
              parentSpanId = Some S\<rparr>"
    using extract_decode [of "[]" T "''-''" S "''-''" f "[]"] h T S f
    by (simp add: is_whitespace_def)
  show "extractTraceparentData (T @ ''-'' @ S) =
        Some \<lparr>traceId = Some T, TraceparentData.parentSampled = None, parentSpanId = Some S\<rparr>"
    using extract_decode [of "[]" T "''-''" S "[]" "[]" "[]"] h T S
    by (simp add: is_whitespace_def)
qed

lemma first_match_none:
  assumes "\<And>i. matcher inp r (drop i inp, no_captures) Some = None"
  shows "first_match r inp is = None"
  by (induction "is") (simp_all add: assms)

lemma regexp_exec_anchored_none:
  assumes "matcher inp r (inp, no_captures) Some = None"
  shows "regexp_exec (Seq LineStart r) inp = None"
proof -
  have "matcher inp (Seq LineStart r) (drop i inp, no_captures) Some = None" for i
  proof (cases "matcher inp (Seq LineStart r) (drop i inp, no_captures) Some")
    case None
    then show ?thesis .
  next
    case (Some y)
    from matcher_anchored [OF this] assms show ?thesis by simp
  qed
  then show ?thesis unfolding regexp_exec_def by (rule first_match_none)
qed

lemma rejected_header:
  "extractTraceparentData ''not-a-valid-header'' = None"
proof -
  have "matcher ''not-a-valid-header'' re_start (''not-a-valid-header'', no_captures) Some = None"
    by (simp add: matcher_Seq matcher_Star_Class matcher_Opt_Class matcher_Opt_Group_Class
        matcher_Opt_Group_Exactly matcher_LineEnd whitespace_def hex_digits_def)
  then have "regexp_exec TRACEPARENT_REGEXP ''not-a-valid-header'' = None"
    unfolding TRACEPARENT_REGEXP_def by (rule regexp_exec_anchored_none)
  then show ?thesis by (simp add: extractTraceparentData_def string_match_def)
qed

lemma rejected_uppercase:
  "extractTraceparentData ''4BF92F3577B34DA6A3CE929D0E0E4736'' = None"
proof -
  have "matcher ''4BF92F3577B34DA6A3CE929D0E0E4736'' re_start
          (''4BF92F3577B34DA6A3CE929D0E0E4736'', no_captures) Some = None"
    by (simp add: matcher_Seq matcher_Star_Class matcher_Opt_Class matcher_Opt_Group_Class
        matcher_Opt_Group_Exactly matcher_LineEnd whitespace_def hex_digits_def)
  then have "regexp_exec TRACEPARENT_REGEXP ''4BF92F3577B34DA6A3CE929D0E0E4736'' = None"
    unfolding TRACEPARENT_REGEXP_def by (rule regexp_exec_anchored_none)
  then show ?thesis by (simp add: extractTraceparentData_def string_match_def)
qed

theorem extractTraceparentData_grammar_witness:
  "extractTraceparentData ''4bf92f3577b34da6a3ce929d0e0e4736-00f067aa0ba902b7-1'' =
     Some \<lparr>traceId = Some ''4bf92f3577b34da6a3ce929d0e0e4736'',
           TraceparentData.parentSampled = Some True,
           parentSpanId = Some ''00f067aa0ba902b7''\<rparr> \<and>
   extractTraceparentData ''4bf92f3577b34da6a3ce929d0e0e4736-00f067aa0ba902b7'' =
     Some \<lparr>traceId = Some ''4bf92f3577b34da6a3ce929d0e0e4736'',
           TraceparentData.parentSampled = None,
           parentSpanId = Some ''00f067aa0ba902b7''\<rparr> \<and>
   extractTraceparentData ''not-a-valid-header'' = None \<and>
   \<not> traceparent_grammar ''not-a-valid-header''"
  using extractTraceparentData_grammar
    [of "''not-a-valid-header''" "''4bf92f3577b34da6a3ce929d0e0e4736''"
      "''00f067aa0ba902b7''" "''1''"]
    rejected_header
  by (simp add: is_hex_def hex_digits_def)

text \<open>
  C9. A string of spaces and tabs only (the empty string among them), and a string that
  is one or two hyphens between optional spaces and tabs, decode to a result whose three
  fields are all undefined, not to "no result".
\<close>

theorem extractTraceparentData_blank:
  assumes "is_whitespace w1" and "is_whitespace w2" and "h = [] \<or> h = ''-'' \<or> h = ''--''"
  shows "extractTraceparentData (w1 @ h @ w2) =
           Some \<lparr>traceId = None, TraceparentData.parentSampled = None, parentSpanId = None\<rparr>"
proof -
  obtain h1 h2 where "h = h1 @ h2" "h1 = [] \<or> h1 = ''-''" "h2 = [] \<or> h2 = ''-''"
    using assms(3) by (metis append_Cons append_Nil)
  then show ?thesis
    using extract_decode [of w1 "[]" h1 "[]" h2 "[]" w2] assms(1,2) by simp
qed

theorem extractTraceparentData_blank_witness:
  "extractTraceparentData [] =
     Some \<lparr>traceId = None, TraceparentData.parentSampled = None, parentSpanId = None\<rparr> \<and>
   extractTraceparentData [CHR '' '', CHR 0x09, CHR '' ''] =
     Some \<lparr>traceId = None, TraceparentData.parentSampled = None, parentSpanId = None\<rparr> \<and>
   extractTraceparentData '' - '' =
     Some \<lparr>traceId = None, TraceparentData.parentSampled = None, parentSpanId = None\<rparr> \<and>
   extractTraceparentData ''--'' =
     Some \<lparr>traceId = None, TraceparentData.parentSampled = None, parentSpanId = None\<rparr>"
  using extractTraceparentData_blank [of "[]" "[]" "[]"]
    extractTraceparentData_blank [of "[CHR '' '', CHR 0x09, CHR '' '']" "[]" "[]"]
    extractTraceparentData_blank [of "'' ''" "'' ''" "''-''"]
    extractTraceparentData_blank [of "[]" "[]" "''--''"]
  by (simp add: is_whitespace_def whitespace_def)


section \<open>Properties of the validator\<close>

lemma isValidSampleRate_true_iff:
  "isValidSampleRate rt r = Inr True \<longleftrightarrow>
     (\<exists>b. r = Primitive (Boolean b)) \<or>
     (\<exists>x. r = Primitive (Number (Finite x)) \<and> 0 \<le> x \<and> x \<le> 1)"
proof (cases r)
  case (Primitive p)
  then show ?thesis
  proof (cases p)
    case (Number n)
    with Primitive show ?thesis
      by (cases n) (auto simp: isValidSampleRate_def isNaN_def js_less_def js_greater_def)
  qed (auto simp: isValidSampleRate_def isNaN_def js_less_def js_greater_def)
next
  case (Object c p j)
  then show ?thesis
    by (auto simp: isValidSampleRate_def isNaN_def split: sum.splits option.splits)
qed

lemma isValidSampleRate_throws_iff:
  "(\<exists>e. isValidSampleRate rt r = Inl e) \<longleftrightarrow>
     (\<exists>e. ToNumber rt r = Inl e) \<or>
     (\<exists>c p e. r = Object c p (Some e))"
proof (cases r)
  case (Primitive p)
  then show ?thesis
  proof (cases p)
    case (Number n)
    with Primitive show ?thesis
      by (cases n) (auto simp: isValidSampleRate_def isNaN_def js_less_def js_greater_def)
  qed (auto simp: isValidSampleRate_def isNaN_def js_less_def js_greater_def)
next
  case (Object c p j)
  then show ?thesis
    by (auto simp: isValidSampleRate_def isNaN_def split: sum.splits option.splits)
qed

lemma isValidSampleRate_false_NumberOf:
  assumes "isValidSampleRate rt v = Inr False"
  shows "\<exists>n. NumberOf rt v = Inr n"
proof (cases v)
  case (Primitive p)
  with assms show ?thesis
    by (cases p) (auto simp: isValidSampleRate_def isNaN_def)
next
  case (Object c p j)
  show ?thesis
  proof (cases p)
    case (Inl e)
    with Object assms show ?thesis by (simp add: isValidSampleRate_def isNaN_def)
  next
    case (Inr q)
    with Object assms show ?thesis
      by (cases q) (auto simp: isValidSampleRate_def isNaN_def)
  qed
qed

text \<open>
  C4. The claim: \<^verbatim>\<open>isValidSampleRate(r)\<close> is true exactly for a boolean or a number in
  [0, 1], false for every other value, and never throws. The characterisation of
  \<open>true\<close> is \<open>isValidSampleRate_true_iff\<close>. The function does throw: \<^verbatim>\<open>isNaN\<close> is applied
  before the test of the type, and converting a Symbol to a number is a TypeError. The
  theorem evaluates the validator on a Symbol.
\<close>

theorem isValidSampleRate_Symbol_throws:
  "isValidSampleRate runtime0 (Primitive Symbol) = Inl TypeError"
  by (simp add: isValidSampleRate_def isNaN_def)


section \<open>Properties of the sampling pass\<close>



lemma sample_roll_metadata:
  "transactionSampling (fst (sample_roll rt m v random t)) = transactionSampling t"
  by (auto simp: sample_roll_def initSpanRecorder_def Let_def split: sum.splits)


lemmas concrete_inputs =
  runtime0_def transaction0_def transaction_true_def context0_def context_parent_true_def
  hub_of_def hub_no_client_def constant_sampler_def options_sampler_def options_rate_def


text \<open>
  C2. The claim: a transaction whose \<^verbatim>\<open>sampled\<close> is already a boolean keeps it, with
  provenance Explicit, for any configuration, also when tracing is disabled or there is no
  client. The code tests the client and \<^verbatim>\<open>hasTracingEnabled\<close> first (lines 40 to 44) and
  sets \<^verbatim>\<open>sampled = false\<close> there: without a client a transaction created with
  \<^verbatim>\<open>sampled = true\<close> leaves the pass with \<^verbatim>\<open>sampled = false\<close>.
\<close>

theorem sample_overwrites_explicit_without_client:
  "sampled transaction_true = Some True \<and>
   sampled (fst (sample runtime0 hub_no_client transaction_true context0 0)) = Some False"
  by (simp add: sample_def concrete_inputs)

text \<open>
  C2, amended. With a client and tracing enabled, a transaction whose \<^verbatim>\<open>sampled\<close> is a
  boolean is returned with that value, with provenance Explicit and nothing else changed.
  The result depends neither on the sampler (which is not called: a sampler that throws
  changes nothing), nor on the rates, the sampling context or the random draw.
\<close>

theorem sample_explicit:
  assumes "getClient h = Some c" and "client_options c = Some opts"
    and "hasTracingEnabled opts" and "sampled t = Some b"
  shows "sample rt h t ctx random =
           (t\<lparr>transactionSampling := Some \<lparr>sampling_method = Explicit, rate = None\<rparr>\<rparr>, None)
         \<and> sampled (fst (sample rt h t ctx random)) = Some b"
  using assms by (simp add: sample_def setMetadata_def)

theorem sample_explicit_witness:
  "sample runtime0 (hub_of (options_sampler (Primitive Symbol))) transaction_true context0 (1/2) =
     (\<lparr>sampled = Some True,
       transactionSampling = Some \<lparr>sampling_method = Explicit, rate = None\<rparr>,
       spanRecorder = None\<rparr>, None)"
  using sample_explicit [of "hub_of (options_sampler (Primitive Symbol))"
      "\<lparr>client_options = Some (options_sampler (Primitive Symbol))\<rparr>"
      "options_sampler (Primitive Symbol)" transaction_true True runtime0 context0 "1/2"]
  by (simp add: concrete_inputs hasTracingEnabled_def)

text \<open>
  C3. When tracing is disabled (the options have neither the key \<^verbatim>\<open>tracesSampler\<close> nor
  the key \<^verbatim>\<open>tracesSampleRate\<close>; also when the hub has no client, or the client no
  options), the pass sets \<^verbatim>\<open>sampled\<close> to false and changes nothing else, so no sampling
  metadata is recorded; this for every transaction (whatever its \<^verbatim>\<open>sampled\<close> was),
  sampling context and draw.
\<close>

theorem sample_tracing_disabled:
  assumes "getClient h = None \<or>
           (\<exists>c. getClient h = Some c \<and>
              (client_options c = None \<or>
               (\<exists>opts. client_options c = Some opts \<and>
                  tracesSampler opts = None \<and> tracesSampleRate opts = None)))"
  shows "sample rt h t ctx random = (t\<lparr>sampled := Some False\<rparr>, None)"
  using assms by (auto simp: sample_def hasTracingEnabled_def empty_options_def)

theorem sample_tracing_disabled_witness:
  "sample runtime0 (hub_of empty_options) transaction_true context_parent_true (1/2) =
     (\<lparr>sampled = Some False, transactionSampling = None, spanRecorder = None\<rparr>, None)"
  using sample_tracing_disabled [of "hub_of empty_options" runtime0 transaction_true
      context_parent_true "1/2"]
  by (simp add: concrete_inputs empty_options_def)

text \<open>
  C5. With \<^verbatim>\<open>sampled\<close> undefined and a sampler that is a function: if the sampler returns
  \<open>1\<close> or \<open>true\<close>, then for every draw in [0, 1) the pass sets \<^verbatim>\<open>sampled = true\<close> and
  initialises the span recorder with the configured \<^verbatim>\<open>maxSpans\<close>; the recorded rate is
  \<open>1\<close> in both cases (\<open>true\<close> is cast to \<open>1\<close>).
\<close>

theorem sample_sampler_keeps:
  assumes "getClient h = Some c" and "client_options c = Some opts"
    and "tracesSampler opts = Some (SamplerFunction f)" and "sampled t = None"
    and "f ctx = Inr v"
    and "v = Primitive (Number (Finite 1)) \<or> v = Primitive (Boolean True)"
    and "0 \<le> random" and "random < 1"
  shows "sample rt h t ctx random =
           (t\<lparr>sampled := Some True,
              transactionSampling := Some \<lparr>sampling_method = Sampler, rate = Some (Finite 1)\<rparr>,
              spanRecorder := Some (maxSpans opts)\<rparr>, None)"
  using assms
  by (auto simp: sample_def hasTracingEnabled_def sample_roll_def isValidSampleRate_def isNaN_def
      js_less_def js_greater_def setMetadata_def initSpanRecorder_def)

theorem sample_sampler_keeps_witness:
  "sample runtime0 (hub_of (options_sampler (Primitive (Boolean True)))) transaction0
      context0 (999/1000) =
     (\<lparr>sampled = Some True,
       transactionSampling = Some \<lparr>sampling_method = Sampler, rate = Some (Finite 1)\<rparr>,
       spanRecorder = Some (Primitive (Number (Finite 1000)))\<rparr>, None)"
  using sample_sampler_keeps [of "hub_of (options_sampler (Primitive (Boolean True)))"
      "\<lparr>client_options = Some (options_sampler (Primitive (Boolean True)))\<rparr>"
      "options_sampler (Primitive (Boolean True))" "constant_sampler (Primitive (Boolean True))"
      transaction0 context0 "Primitive (Boolean True)" "999/1000" runtime0]
  by (simp add: concrete_inputs)

text \<open>
  With \<^verbatim>\<open>sampled\<close> undefined and a sampler that is a function: if the sampler returns
  \<open>0\<close>, \<open>false\<close>, or a value on which \<^verbatim>\<open>isValidSampleRate\<close> returns false, the pass
  records the Sampler provenance with the numeric cast of the value, sets
  \<^verbatim>\<open>sampled = false\<close> and returns; the span recorder is untouched and the result is the
  same for every draw, so the dice are not rolled.
\<close>

lemma sample_sampler_drops:
  assumes "getClient h = Some c" and "client_options c = Some opts"
    and "tracesSampler opts = Some (SamplerFunction f)" and "sampled t = None"
    and "f ctx = Inr v"
    and "v = Primitive (Number (Finite 0)) \<or> v = Primitive (Boolean False) \<or>
         isValidSampleRate rt v = Inr False"
  shows "\<exists>n. NumberOf rt v = Inr n \<and>
           (\<forall>random. sample rt h t ctx random =
             (t\<lparr>sampled := Some False,
                transactionSampling := Some \<lparr>sampling_method = Sampler, rate = Some n\<rparr>\<rparr>, None))"
proof -
  have en: "hasTracingEnabled opts"
    using assms(3) by (simp add: hasTracingEnabled_def)
  consider (zero) "v = Primitive (Number (Finite 0)) \<or> v = Primitive (Boolean False)"
    | (invalid) "isValidSampleRate rt v = Inr False"
    using assms(6) by blast
  then show ?thesis
  proof cases
    case zero
    then show ?thesis using assms(1-5) en
      by (auto simp: sample_def sample_roll_def isValidSampleRate_def isNaN_def
          js_less_def js_greater_def setMetadata_def)
  next
    case invalid
    from isValidSampleRate_false_NumberOf [OF invalid]
    obtain n where n: "NumberOf rt v = Inr n" ..
    then show ?thesis using assms(1-5) en invalid
      by (auto simp: sample_def sample_roll_def setMetadata_def)
  qed
qed

lemma sample_sampler_drops_at_two:
  "isValidSampleRate runtime0 (Primitive (Number (Finite 2))) = Inr False \<and>
   sample runtime0 (hub_of (options_sampler (Primitive (Number (Finite 2))))) transaction0
      context0 0 =
     (\<lparr>sampled = Some False,
       transactionSampling = Some \<lparr>sampling_method = Sampler, rate = Some (Finite 2)\<rparr>,
       spanRecorder = None\<rparr>, None)"
proof -
  have inv: "isValidSampleRate runtime0 (Primitive (Number (Finite 2))) = Inr False"
    by (simp add: isValidSampleRate_def isNaN_def js_less_def js_greater_def)
  have "\<exists>n. NumberOf runtime0 (Primitive (Number (Finite 2))) = Inr n \<and>
           (\<forall>random. sample runtime0 (hub_of (options_sampler (Primitive (Number (Finite 2)))))
              transaction0 context0 random =
             (transaction0\<lparr>sampled := Some False,
                transactionSampling := Some \<lparr>sampling_method = Sampler, rate = Some n\<rparr>\<rparr>, None))"
    by (rule sample_sampler_drops [of _
          "\<lparr>client_options = Some (options_sampler (Primitive (Number (Finite 2))))\<rparr>"
          "options_sampler (Primitive (Number (Finite 2)))"
          "constant_sampler (Primitive (Number (Finite 2)))"])
      (simp_all add: concrete_inputs inv [unfolded runtime0_def])
  then show ?thesis using inv by (auto simp: concrete_inputs)
qed

text \<open>
  C6. The claim: with \<^verbatim>\<open>sampled\<close> undefined and a sampler that is a function, a sampler
  value of \<open>0\<close>, \<open>false\<close>, or any value failing validation (wrong type, out of range, NaN)
  gives \<^verbatim>\<open>sampled = false\<close>, with no draw and no recorder. That holds for the values on
  which the validator returns false (\<open>sample_sampler_drops\<close>), not for every value of a
  wrong type: on a BigInt (or a Symbol) the validator throws instead, and so does the
  pass. The theorem evaluates the pass on a sampler returning \<^verbatim>\<open>1n\<close>: the provenance
  is recorded with the rate \<^verbatim>\<open>Number(1n) = 1\<close>, then the TypeError of \<^verbatim>\<open>isNaN(1n)\<close> leaves
  the pass with \<^verbatim>\<open>sampled\<close> still undefined.
\<close>

theorem sample_sampler_BigInt_throws:
  "sample runtime0 (hub_of (options_sampler (Primitive (BigInt 1)))) transaction0 context0 (1/2) =
     (\<lparr>sampled = None,
       transactionSampling = Some \<lparr>sampling_method = Sampler, rate = Some (Finite 1)\<rparr>,
       spanRecorder = None\<rparr>, Some TypeError)"
  by (simp add: concrete_inputs sample_def hasTracingEnabled_def sample_roll_def
      isValidSampleRate_def isNaN_def setMetadata_def)


section \<open>Properties of \<^verbatim>\<open>computeTracestateValue\<close>\<close>

text \<open>
  C10. \<^verbatim>\<open>computeTracestateValue\<close> changes its argument: whether the call returns or
  throws (whatever \<^verbatim>\<open>unicodeToBase64\<close> does), the object is left with \<^verbatim>\<open>environment\<close>
  and \<^verbatim>\<open>release\<close> replaced by \<^verbatim>\<open>null\<close> where they were falsy (\<^verbatim>\<open>undefined\<close>, \<^verbatim>\<open>null\<close> or
  the empty string), and with \<^verbatim>\<open>trace_id\<close> and \<^verbatim>\<open>public_key\<close> as they were.
\<close>

theorem computeTracestateValue_mutates_argument:
  "trace_id (fst (computeTracestateValue toBase64 d)) = trace_id d \<and>
   public_key (fst (computeTracestateValue toBase64 d)) = public_key d \<and>
   (environment d = IsUndefined \<or> environment d = IsNull \<or> environment d = IsString [] \<longrightarrow>
      environment (fst (computeTracestateValue toBase64 d)) = IsNull) \<and>
   (release d = IsUndefined \<or> release d = IsNull \<or> release d = IsString [] \<longrightarrow>
      release (fst (computeTracestateValue toBase64 d)) = IsNull)"
  by (auto simp: computeTracestateValue_def Let_def)

theorem computeTracestateValue_mutates_argument_witness:
  "computeTracestateValue failing_encoder tracestate0 =
     (\<lparr>trace_id = ''4bf92f3577b34da6a3ce929d0e0e4736'', environment = IsNull,
       release = IsNull, public_key = ''dogsarebadatkeepingsecrets'',
       property_order = [''trace_id'', ''environment'', ''public_key'', ''release'']\<rparr>,
      Inl SentryError) \<and>
   fst (computeTracestateValue unicodeToBase64 tracestate0) =
     \<lparr>trace_id = ''4bf92f3577b34da6a3ce929d0e0e4736'', environment = IsNull,
       release = IsNull, public_key = ''dogsarebadatkeepingsecrets'',
       property_order = [''trace_id'', ''environment'', ''public_key'', ''release'']\<rparr>"
  using computeTracestateValue_mutates_argument [of failing_encoder tracestate0]
    computeTracestateValue_mutates_argument [of unicodeToBase64 tracestate0]
  by (simp add: computeTracestateValue_def Let_def tracestate0_def failing_encoder_def
      assigned_def)


section \<open>Properties of the base64 encoding and of the stripping of its padding\<close>

lemma index_of_nth: "distinct xs \<Longrightarrow> i < length xs \<Longrightarrow> index_of (xs ! i) xs = Some i"
proof (induction xs arbitrary: i)
  case Nil
  then show ?case by simp
next
  case (Cons x xs)
  then show ?case by (cases i) auto
qed

lemma distinct_base64_alphabet: "distinct base64_alphabet"
  by (simp add: base64_alphabet_def)

lemma length_base64_alphabet: "length base64_alphabet = 64"
  by (simp add: base64_alphabet_def)

lemma those_map_Some: "those (map Some xs) = Some xs"
  by (induction xs) simp_all


lemma those_index_alphabet:
  assumes "\<forall>v \<in> set vs. v < 64"
  shows "those (map (\<lambda>c. index_of c base64_alphabet) (map (\<lambda>v. base64_alphabet ! v) vs)) = Some vs"
proof -
  have "index_of (base64_alphabet ! v) base64_alphabet = Some v" if "v \<in> set vs" for v
    using that assms by (intro index_of_nth distinct_base64_alphabet) (simp add: length_base64_alphabet)
  then have "map (\<lambda>c. index_of c base64_alphabet) (map (\<lambda>v. base64_alphabet ! v) vs) = map Some vs"
    by simp
  then show ?thesis by (simp only: those_map_Some)
qed

lemma sextet_arith:
  fixes a b c :: nat
  assumes "a < 256" and "b < 256" and "c < 256"
  shows "a div 4 < 64" and "(a mod 4) * 16 + b div 16 < 64" and "(b mod 16) * 4 + c div 64 < 64"
    and "c mod 64 < 64" and "(b mod 16) * 4 < 64" and "(a mod 4) * 16 < 64"
proof -
  have "a mod 4 < 4" "b mod 16 < 16" "b div 16 < 16" "c div 64 < 4" "a div 4 < 64"
    using assms by (simp_all add: div_less_iff_less_mult)
  then show "a div 4 < 64" and "(a mod 4) * 16 + b div 16 < 64"
    and "(b mod 16) * 4 + c div 64 < 64"
    and "c mod 64 < 64" and "(b mod 16) * 4 < 64" and "(a mod 4) * 16 < 64"
    by simp_all
qed


lemma div_mod_digit:
  fixes q r n :: nat
  assumes "r < n"
  shows "(q * n + r) div n = q" and "(q * n + r) mod n = r"
  using assms by simp_all

lemma sextet_reassemble:
  fixes a b c :: nat
  assumes "a < 256" and "b < 256" and "c < 256"
  shows "a div 4 * 4 + ((a mod 4) * 16 + b div 16) div 16 = a"
    and "(((a mod 4) * 16 + b div 16) mod 16) * 16 + ((b mod 16) * 4 + c div 64) div 4 = b"
    and "(((b mod 16) * 4 + c div 64) mod 4) * 64 + c mod 64 = c"
    and "(((a mod 4) * 16 + b div 16) mod 16) * 16 + ((b mod 16) * 4) div 4 = b"
    and "a div 4 * 4 + ((a mod 4) * 16) div 16 = a"
proof -
  have b: "b div 16 < 16" and c: "c div 64 < 4"
    using assms by (simp_all add: div_less_iff_less_mult)
  note digits = div_mod_digit [OF b] div_mod_digit [OF c] mod_less [OF b] mod_less [OF c]
  show "a div 4 * 4 + ((a mod 4) * 16 + b div 16) div 16 = a"
    by (simp add: digits)
  show "(((a mod 4) * 16 + b div 16) mod 16) * 16 + ((b mod 16) * 4 + c div 64) div 4 = b"
    by (simp add: digits)
  show "(((b mod 16) * 4 + c div 64) mod 4) * 64 + c mod 64 = c"
    by (simp add: digits)
  show "(((a mod 4) * 16 + b div 16) mod 16) * 16 + ((b mod 16) * 4) div 4 = b"
    by (simp add: digits)
  show "a div 4 * 4 + ((a mod 4) * 16) div 16 = a"
    by simp
qed

lemma base64_sextets_bound:
  assumes "\<forall>b \<in> set bs. b < 256"
  shows "\<forall>v \<in> set (base64_sextets bs). v < 64"
  using assms
proof (induction bs rule: base64_sextets.induct)
  case (1 a b c rest)
  then have "a < 256" "b < 256" "c < 256" by simp_all
  from sextet_arith [OF this] 1 show ?case by simp
next
  case (2 a b)
  then have "a < 256" "b < 256" by simp_all
  from sextet_arith [OF this this(2)] show ?case by simp
next
  case (3 a)
  then have "a < 256" by simp
  from sextet_arith [OF this this this] show ?case by simp
next
  case 4
  show ?case by simp
qed

lemma base64_bytes_sextets:
  assumes "\<forall>b \<in> set bs. b < 256"
  shows "base64_bytes (base64_sextets bs) = Some bs"
  using assms
proof (induction bs rule: base64_sextets.induct)
  case (1 a b c rest)
  then have "a < 256" "b < 256" "c < 256" by simp_all
  from sextet_reassemble [OF this] 1 show ?case by simp
next
  case (2 a b)
  then have "a < 256" "b < 256" by simp_all
  from sextet_reassemble [OF this this(2)] show ?case by simp
next
  case (3 a)
  then have "a < 256" by simp
  from sextet_reassemble [OF this this this] show ?case by simp
next
  case 4
  show ?case by simp
qed

lemma matcher_padding:
  "matcher inp PADDING_REGEXP (s, caps) Some =
     (if s = ''='' \<or> s = ''=='' then Some ([], caps) else None)"
proof -
  have "matcher inp PADDING_REGEXP (s, caps) Some =
          (case s of
             [] \<Rightarrow> None
           | c # rest \<Rightarrow>
               if c = CHR ''='' then
                 matcher inp (Opt (Class ''='')) (rest, caps) (\<lambda>y. matcher inp LineEnd y Some)
               else None)"
    unfolding PADDING_REGEXP_def
    by (subst matcher_Seq, subst matcher.simps(6)) (simp add: matcher_atoms split: list.split)
  then show ?thesis
    by (auto simp: matcher_Opt_Class matcher_LineEnd split: list.split)
qed


lemma first_match_append:
  "first_match r inp (is1 @ is2) =
     (case first_match r inp is1 of Some m \<Rightarrow> Some m | None \<Rightarrow> first_match r inp is2)"
  by (induction is1) (auto split: option.split)

lemma first_match_all_fail:
  assumes "\<And>i. i \<in> set is \<Longrightarrow> matcher inp r (drop i inp, no_captures) Some = None"
  shows "first_match r inp is = None"
  using assms by (induction "is") simp_all

lemma upt_split_at:
  assumes "n \<le> m"
  shows "[0..<Suc m] = [0..<n] @ n # [Suc n..<Suc m]"
proof -
  have "[0..<Suc m] = [0..<n] @ [n..<Suc m]"
    using assms upt_add_eq_append [of 0 n "Suc m - n"] by simp
  moreover have "[n..<Suc m] = n # [Suc n..<Suc m]"
    using assms by (intro upt_conv_Cons) simp
  ultimately show ?thesis by simp
qed


lemma strip_padding:
  assumes "CHR ''='' \<notin> set body" and "pad = [] \<or> pad = ''='' \<or> pad = ''==''"
  shows "string_replace (body @ pad) PADDING_REGEXP [] = body"
proof -
  let ?inp = "body @ pad"
  let ?n = "length body"
  have split: "[0..<Suc (length ?inp)] = [0..<?n] @ ?n # [Suc ?n..<Suc (length ?inp)]"
    by (rule upt_split_at) simp
  have before: "first_match PADDING_REGEXP ?inp [0..<?n] = None"
  proof (rule first_match_all_fail)
    fix i assume "i \<in> set [0..<?n]"
    then have i: "i < ?n" by simp
    then have "drop i ?inp = body ! i # (drop (Suc i) body @ pad)"
      by (simp add: Cons_nth_drop_Suc)
    moreover have "body ! i \<in> set body" using i by (rule nth_mem)
    then have "body ! i \<noteq> CHR ''=''" using assms(1) by metis
    ultimately show "matcher ?inp PADDING_REGEXP (drop i ?inp, no_captures) Some = None"
      by (simp only: matcher_padding) simp
  qed
  have at_pad: "matcher ?inp PADDING_REGEXP (drop ?n ?inp, no_captures) Some =
                  (if pad = [] then None else Some ([], no_captures))"
    using assms(2) by (auto simp: matcher_padding)
  have exec: "regexp_exec PADDING_REGEXP ?inp =
                (if pad = [] then None else Some (?n, [], no_captures))"
  proof (cases "pad = []")
    case True
    have "first_match PADDING_REGEXP ?inp [?n] = None"
      using at_pad True by simp
    moreover have "[0..<Suc (length ?inp)] = [0..<?n] @ [?n]" using True by simp
    ultimately show ?thesis
      unfolding regexp_exec_def using before True
      by (simp only: first_match_append) simp
  next
    case False
    have "first_match PADDING_REGEXP ?inp (?n # [Suc ?n..<Suc (length ?inp)]) =
            Some (?n, [], no_captures)"
      using at_pad False by simp
    then show ?thesis
      unfolding regexp_exec_def using before False
      by (simp only: split first_match_append) simp
  qed
  show ?thesis using exec by (cases "pad = []") (simp_all add: string_replace_def)
qed

section \<open>Properties of the serialisation\<close>

lemma hex_value_digit:
  assumes "k < 16"
  shows "hex_value (hex_digits ! k) = Some k"
proof -
  have "distinct hex_digits" "length hex_digits = 16" by (simp_all add: hex_digits_def)
  then have "index_of (hex_digits ! k) hex_digits = Some k"
    using assms by (simp add: index_of_nth)
  then show ?thesis by (simp add: hex_value_def)
qed

lemma hex_value_zero: "hex_value (CHR ''0'') = Some 0"
  by (simp add: hex_value_def hex_digits_def)

lemma unicode_escape_control:
  assumes "(of_char c :: nat) < 32"
  shows "unicode_escape (CHR ''0'') (CHR ''0'') (hex_digits ! (of_char c div 16))
           (hex_digits ! (of_char c mod 16)) = Some c"
proof -
  let ?n = "of_char c :: nat"
  have "?n div 16 < 16" "?n mod 16 < 16" using assms by simp_all
  then have "hex_value (hex_digits ! (?n div 16)) = Some (?n div 16)"
    "hex_value (hex_digits ! (?n mod 16)) = Some (?n mod 16)"
    by (simp_all only: hex_value_digit)
  moreover have "?n < 128" using assms by simp
  ultimately show ?thesis
    by (simp add: unicode_escape_def hex_value_zero)
qed

lemma parse_chars_escape:
  "parse_chars (json_escape c @ rest) = prepend c (parse_chars rest)"
proof -
  consider (named) "c \<in> {CHR 0x08, CHR 0x09, CHR 0x0A, CHR 0x0C, CHR 0x0D, quote_char, backslash}"
    | (control) "c \<notin> {CHR 0x08, CHR 0x09, CHR 0x0A, CHR 0x0C, CHR 0x0D, quote_char, backslash}"
        "(of_char c :: nat) < 32"
    | (plain) "c \<notin> {CHR 0x08, CHR 0x09, CHR 0x0A, CHR 0x0C, CHR 0x0D, quote_char, backslash}"
        "\<not> (of_char c :: nat) < 32"
    by blast
  then show ?thesis
  proof cases
    case named
    then show ?thesis
      by (auto simp: json_escape_def unescape_def quote_char_def backslash_def)
  next
    case control
    then show ?thesis
      using unicode_escape_control [OF control(2)]
      by (simp add: json_escape_def quote_char_def backslash_def)
  next
    case plain
    then show ?thesis by (simp add: json_escape_def)
  qed
qed

lemma parse_chars_quoted:
  "parse_chars (concat (map json_escape s) @ quote_char # rest) = Some (s, rest)"
  by (induction s) (simp_all add: parse_chars_escape prepend_def)


lemma parse_string_quoted: "parse_string (json_quote s @ rest) = Some (s, rest)"
  by (simp add: parse_string_def json_quote_def parse_chars_quoted)

lemma parse_leaf_text: "parse_leaf (leaf_text l @ rest) = Some (l, rest)"
proof (cases l)
  case JNull
  then show ?thesis by (simp add: parse_leaf_def)
next
  case (JString s)
  have "take 4 (json_quote s @ rest) \<noteq> ''null''"
    by (simp add: json_quote_def quote_char_def)
  then show ?thesis using JString by (simp add: parse_leaf_def parse_string_quoted)
qed

lemma parse_member_text: "parse_member (member_text kv @ rest) = Some (kv, rest)"
  by (simp add: parse_member_def member_text_def parse_string_quoted parse_leaf_text)

lemma parse_members_texts:
  assumes "kvs \<noteq> []" and "length kvs \<le> n"
  shows "parse_members n (join_commas (map member_text kvs) @ CHR ''}'' # rest) = Some (kvs, rest)"
  using assms
proof (induction kvs arbitrary: n)
  case Nil
  then show ?case by simp
next
  case (Cons kv kvs)
  then obtain m where n: "n = Suc m" by (cases n) auto
  show ?case
  proof (cases kvs)
    case Nil
    then show ?thesis using n by (simp add: parse_member_text)
  next
    case (Cons kv2 kvs2)
    then have "parse_members m (join_commas (map member_text kvs) @ CHR ''}'' # rest) = Some (kvs, rest)"
      using Cons.IH [of m] Cons.prems n by simp
    then show ?thesis using n Cons by (simp add: parse_member_text)
  qed
qed

lemma json_member_text:
  "property d key \<noteq> IsUndefined \<Longrightarrow>
     json_member key (property d key) = [member_text (key, json_leaf_of (property d key))]"
  by (cases "property d key") (simp_all add: json_member_def member_text_def)

lemma stringify_members:
  "concat (map (\<lambda>key. json_member key (property d key)) keys) =
     map member_text (members_of d keys)"
  by (induction keys) (simp_all add: json_member_text, simp add: json_member_def)

lemma JSON_stringify_members:
  "JSON_stringify d =
     CHR ''{'' # join_commas (map member_text (members_of d (property_order d))) @ ''}''"
  by (simp add: JSON_stringify_def stringify_members)

lemma member_text_nonempty: "member_text kv \<noteq> []"
  by (simp add: member_text_def json_quote_def)

lemma length_join_commas: "length kvs \<le> length (join_commas (map member_text kvs))"
proof (induction kvs)
  case Nil
  then show ?case by simp
next
  case (Cons kv kvs)
  have "1 \<le> length (member_text kv)"
    using member_text_nonempty [of kv] by (cases "member_text kv") simp_all
  then show ?case using Cons by (cases kvs) simp_all
qed

lemma JSON_parse_members:
  assumes "kvs \<noteq> []"
  shows "JSON_parse (CHR ''{'' # join_commas (map member_text kvs) @ ''}'') = Some kvs"
proof -
  let ?r = "join_commas (map member_text kvs) @ ''}''"
  have "length kvs \<le> length ?r" using length_join_commas [of kvs] by simp
  then have "parse_members (length ?r) (join_commas (map member_text kvs) @ CHR ''}'' # []) =
               Some (kvs, [])"
    using assms by (intro parse_members_texts)
  moreover have "?r \<noteq> ''}''"
    using assms length_join_commas [of kvs] by (cases kvs) auto
  ultimately show ?thesis
    unfolding JSON_parse_def by simp
qed

lemma keys_members_of:
  "map fst (members_of d keys) = filter (\<lambda>key. property d key \<noteq> IsUndefined) keys"
  by (induction keys) simp_all

lemma map_of_members_of:
  "key \<in> set keys \<Longrightarrow> property d key \<noteq> IsUndefined \<Longrightarrow>
     map_of (members_of d keys) key = Some (json_leaf_of (property d key))"
  by (induction keys) auto

lemma assigned_member: "key \<in> set (assigned key keys)"
  by (simp add: assigned_def)

lemma assigned_keeps: "k \<in> set keys \<Longrightarrow> k \<in> set (assigned key keys)"
  by (simp add: assigned_def)

section \<open>The round trip of a tracestate value\<close>

lemma base64_padding_cases:
  "base64_padding n = [] \<or> base64_padding n = ''='' \<or> base64_padding n = ''==''"
proof -
  have "(3 - n mod 3) mod 3 = 0 \<or> (3 - n mod 3) mod 3 = 1 \<or> (3 - n mod 3) mod 3 = 2"
    by arith
  then show ?thesis
    by (auto simp: base64_padding_def numeral_2_eq_2)
qed

lemma base64_body_no_padding:
  assumes "\<forall>v \<in> set vs. v < 64"
  shows "CHR ''='' \<notin> set (map (\<lambda>v. base64_alphabet ! v) vs)"
proof
  assume "CHR ''='' \<in> set (map (\<lambda>v. base64_alphabet ! v) vs)"
  then obtain v where "v \<in> set vs" "base64_alphabet ! v = CHR ''=''" by auto
  then have "CHR ''='' \<in> set base64_alphabet"
    using assms nth_mem [of v base64_alphabet] by (auto simp: length_base64_alphabet)
  then show False by (simp add: base64_alphabet_def)
qed

lemma bytes_of_string: "\<forall>b \<in> set (map of_char (s :: string)). b < (256 :: nat)"
  by simp

lemma unicodeToBase64_stripped:
  "unicodeToBase64 s = Inr b64 \<Longrightarrow>
     string_replace b64 PADDING_REGEXP [] =
       map (\<lambda>v. base64_alphabet ! v) (base64_sextets (map of_char s))"
  using strip_padding [OF base64_body_no_padding [OF base64_sextets_bound [OF bytes_of_string]]
      base64_padding_cases, of s "length (map of_char s)"]
  by (auto simp: unicodeToBase64_def base64_encode_def)

lemma base64_decode_body:
  "base64_decode (map (\<lambda>v. base64_alphabet ! v) (base64_sextets (map of_char s))) = Some s"
proof -
  let ?vs = "base64_sextets (map of_char s)"
  let ?body = "map (\<lambda>v. base64_alphabet ! v) ?vs"
  have small: "\<forall>v \<in> set ?vs. v < 64"
    by (rule base64_sextets_bound [OF bytes_of_string])
  have whole: "takeWhile (\<lambda>c. c \<noteq> CHR ''='') ?body = ?body"
    using base64_body_no_padding [OF small] by (intro takeWhile_eq_all_conv [THEN iffD2]) metis
  have sextets: "those (map (\<lambda>c. index_of c base64_alphabet) ?body) = Some ?vs"
    by (rule those_index_alphabet [OF small])
  have bytes: "base64_bytes ?vs = Some (map of_char s)"
    by (rule base64_bytes_sextets [OF bytes_of_string])
  show ?thesis unfolding base64_decode_def whole sextets by (simp add: bytes)
qed


lemma or_null_defined: "or_null v \<noteq> IsUndefined"
  by (cases v) simp_all

lemma tracestate0_value:
  "snd (computeTracestateValue unicodeToBase64 tracestate0) =
     Inr ''eyJ0cmFjZV9pZCI6IjRiZjkyZjM1NzdiMzRkYTZhM2NlOTI5ZDBlMGU0NzM2IiwiZW52aXJvbm1lbnQiOm51bGwsInB1YmxpY19rZXkiOiJkb2dzYXJlYmFkYXRrZWVwaW5nc2VjcmV0cyIsInJlbGVhc2UiOm51bGx9'' \<and>
   unicodeToBase64 (JSON_stringify (fst (computeTracestateValue unicodeToBase64 tracestate0))) =
     Inr ''eyJ0cmFjZV9pZCI6IjRiZjkyZjM1NzdiMzRkYTZhM2NlOTI5ZDBlMGU0NzM2IiwiZW52aXJvbm1lbnQiOm51bGwsInB1YmxpY19rZXkiOiJkb2dzYXJlYmFkYXRrZWVwaW5nc2VjcmV0cyIsInJlbGVhc2UiOm51bGx9''"
proof -
  let ?json = "JSON_stringify (fst (computeTracestateValue unicodeToBase64 tracestate0))"
  have "snd (computeTracestateValue unicodeToBase64 tracestate0) =
          Inr (map (\<lambda>v. base64_alphabet ! v) (base64_sextets (map of_char ?json)))"
    using unicodeToBase64_stripped [of ?json]
    by (simp add: computeTracestateValue_def Let_def unicodeToBase64_def)
  also have "map (\<lambda>v. base64_alphabet ! v) (base64_sextets (map of_char ?json)) =
    ''eyJ0cmFjZV9pZCI6IjRiZjkyZjM1NzdiMzRkYTZhM2NlOTI5ZDBlMGU0NzM2IiwiZW52aXJvbm1lbnQiOm51bGwsInB1YmxpY19rZXkiOiJkb2dzYXJlYmFkYXRrZWVwaW5nc2VjcmV0cyIsInJlbGVhc2UiOm51bGx9''"
    by (simp add: computeTracestateValue_def Let_def tracestate0_def JSON_stringify_def
        assigned_def property_def
        json_member_def json_quote_def json_escape_def quote_char_def backslash_def
        base64_alphabet_def)
  finally have stripped: "snd (computeTracestateValue unicodeToBase64 tracestate0) =
     Inr ''eyJ0cmFjZV9pZCI6IjRiZjkyZjM1NzdiMzRkYTZhM2NlOTI5ZDBlMGU0NzM2IiwiZW52aXJvbm1lbnQiOm51bGwsInB1YmxpY19rZXkiOiJkb2dzYXJlYmFkYXRrZWVwaW5nc2VjcmV0cyIsInJlbGVhc2UiOm51bGx9''" .
  have "unicodeToBase64 ?json =
     Inr ''eyJ0cmFjZV9pZCI6IjRiZjkyZjM1NzdiMzRkYTZhM2NlOTI5ZDBlMGU0NzM2IiwiZW52aXJvbm1lbnQiOm51bGwsInB1YmxpY19rZXkiOiJkb2dzYXJlYmFkYXRrZWVwaW5nc2VjcmV0cyIsInJlbGVhc2UiOm51bGx9''"
    by (simp add: computeTracestateValue_def Let_def tracestate0_def JSON_stringify_def
        assigned_def property_def unicodeToBase64_def base64_encode_def base64_padding_def
        json_member_def json_quote_def json_escape_def quote_char_def backslash_def
        base64_alphabet_def)
  with stripped show ?thesis by simp
qed

lemma tracestate_reordered_value:
  "snd (computeTracestateValue unicodeToBase64 tracestate_reordered) =
     Inr ''eyJwdWJsaWNfa2V5IjoiZG9nc2FyZWJhZGF0a2VlcGluZ3NlY3JldHMiLCJyZWxlYXNlIjoiMS4yLjMiLCJlbnZpcm9ubWVudCI6InByb2QiLCJ0cmFjZV9pZCI6IjRiZjkyZjM1NzdiMzRkYTZhM2NlOTI5ZDBlMGU0NzM2In0'' \<and>
   unicodeToBase64 (JSON_stringify (fst (computeTracestateValue unicodeToBase64 tracestate_reordered))) =
     Inr ''eyJwdWJsaWNfa2V5IjoiZG9nc2FyZWJhZGF0a2VlcGluZ3NlY3JldHMiLCJyZWxlYXNlIjoiMS4yLjMiLCJlbnZpcm9ubWVudCI6InByb2QiLCJ0cmFjZV9pZCI6IjRiZjkyZjM1NzdiMzRkYTZhM2NlOTI5ZDBlMGU0NzM2In0=''"
proof -
  let ?json = "JSON_stringify (fst (computeTracestateValue unicodeToBase64 tracestate_reordered))"
  have "snd (computeTracestateValue unicodeToBase64 tracestate_reordered) =
          Inr (map (\<lambda>v. base64_alphabet ! v) (base64_sextets (map of_char ?json)))"
    using unicodeToBase64_stripped [of ?json]
    by (simp add: computeTracestateValue_def Let_def unicodeToBase64_def)
  also have "map (\<lambda>v. base64_alphabet ! v) (base64_sextets (map of_char ?json)) =
    ''eyJwdWJsaWNfa2V5IjoiZG9nc2FyZWJhZGF0a2VlcGluZ3NlY3JldHMiLCJyZWxlYXNlIjoiMS4yLjMiLCJlbnZpcm9ubWVudCI6InByb2QiLCJ0cmFjZV9pZCI6IjRiZjkyZjM1NzdiMzRkYTZhM2NlOTI5ZDBlMGU0NzM2In0''"
    by (simp add: computeTracestateValue_def Let_def tracestate_reordered_def JSON_stringify_def
        assigned_def property_def
        json_member_def json_quote_def json_escape_def quote_char_def backslash_def
        base64_alphabet_def)
  finally have stripped: "snd (computeTracestateValue unicodeToBase64 tracestate_reordered) =
     Inr ''eyJwdWJsaWNfa2V5IjoiZG9nc2FyZWJhZGF0a2VlcGluZ3NlY3JldHMiLCJyZWxlYXNlIjoiMS4yLjMiLCJlbnZpcm9ubWVudCI6InByb2QiLCJ0cmFjZV9pZCI6IjRiZjkyZjM1NzdiMzRkYTZhM2NlOTI5ZDBlMGU0NzM2In0''" .
  have "unicodeToBase64 ?json =
     Inr ''eyJwdWJsaWNfa2V5IjoiZG9nc2FyZWJhZGF0a2VlcGluZ3NlY3JldHMiLCJyZWxlYXNlIjoiMS4yLjMiLCJlbnZpcm9ubWVudCI6InByb2QiLCJ0cmFjZV9pZCI6IjRiZjkyZjM1NzdiMzRkYTZhM2NlOTI5ZDBlMGU0NzM2In0=''"
    by (simp add: computeTracestateValue_def Let_def tracestate_reordered_def JSON_stringify_def
        assigned_def property_def unicodeToBase64_def base64_encode_def base64_padding_def
        json_member_def json_quote_def json_escape_def quote_char_def backslash_def
        base64_alphabet_def)
  with stripped show ?thesis by simp
qed

text \<open>
  C8. With \<^verbatim>\<open>unicodeToBase64\<close> as the specification describes it, the call returns a
  string for every input: the base64 text without its padding of at most two \<^verbatim>\<open>=\<close>. The
  string has no \<^verbatim>\<open>=\<close> at all, so it does not end in one. Decoding it from base64 and
  parsing the text gives an object whose members are the properties of the argument after
  the call, in the order of that object; there \<^verbatim>\<open>environment\<close> and \<^verbatim>\<open>release\<close> are \<^verbatim>\<open>null\<close>
  exactly when the input had \<^verbatim>\<open>undefined\<close>, \<^verbatim>\<open>null\<close> or the empty string there, and the
  strings of the input otherwise, and \<^verbatim>\<open>trace_id\<close> and \<^verbatim>\<open>public_key\<close>, when the object has
  them, are the strings of the input.
\<close>

theorem computeTracestateValue_round_trip:
  "\<exists>out pad members.
     snd (computeTracestateValue unicodeToBase64 d) = Inr out \<and>
     unicodeToBase64 (JSON_stringify (fst (computeTracestateValue unicodeToBase64 d))) =
       Inr (out @ pad) \<and>
     (pad = [] \<or> pad = ''='' \<or> pad = ''=='') \<and>
     CHR ''='' \<notin> set out \<and>
     (\<forall>p. out \<noteq> p @ ''='') \<and>
     (case base64_decode out of None \<Rightarrow> None | Some text \<Rightarrow> JSON_parse text) =
       Some members \<and>
     map fst members =
       filter (\<lambda>key. key \<in> {''trace_id'', ''environment'', ''release'', ''public_key''})
         (property_order (fst (computeTracestateValue unicodeToBase64 d))) \<and>
     map_of members ''environment'' =
       Some (if environment d = IsUndefined \<or> environment d = IsNull \<or>
                environment d = IsString [] then JNull
             else json_leaf_of (environment d)) \<and>
     map_of members ''release'' =
       Some (if release d = IsUndefined \<or> release d = IsNull \<or>
                release d = IsString [] then JNull
             else json_leaf_of (release d)) \<and>
     (''trace_id'' \<in> set (property_order d) \<longrightarrow>
        map_of members ''trace_id'' = Some (JString (trace_id d))) \<and>
     (''public_key'' \<in> set (property_order d) \<longrightarrow>
        map_of members ''public_key'' = Some (JString (public_key d)))"
proof -
  let ?d = "fst (computeTracestateValue unicodeToBase64 d)"
  let ?json = "JSON_stringify ?d"
  let ?out = "map (\<lambda>v. base64_alphabet ! v) (base64_sextets (map of_char ?json))"
  let ?members = "members_of ?d (property_order ?d)"
  have d: "?d = d\<lparr>environment := or_null (environment d), release := or_null (release d),
                   property_order :=
                     assigned ''release'' (assigned ''environment'' (property_order d))\<rparr>"
    by (simp add: computeTracestateValue_def Let_def)
  have order: "property_order ?d =
                 assigned ''release'' (assigned ''environment'' (property_order d))"
    by (simp add: d)
  have env_in: "''environment'' \<in> set (property_order ?d)"
    unfolding order by (intro assigned_keeps assigned_member)
  have rel_in: "''release'' \<in> set (property_order ?d)"
    unfolding order by (rule assigned_member)
  have kept: "k \<in> set (property_order ?d)" if "k \<in> set (property_order d)" for k
    unfolding order using that by (intro assigned_keeps)
  have env: "property ?d ''environment'' = or_null (environment d)"
    by (simp add: d property_def)
  have rel: "property ?d ''release'' = or_null (release d)"
    by (simp add: d property_def)
  have tid: "property ?d ''trace_id'' = IsString (trace_id d)"
    by (simp add: d property_def)
  have pkey: "property ?d ''public_key'' = IsString (public_key d)"
    by (simp add: d property_def)
  have defined: "property ?d key \<noteq> IsUndefined \<longleftrightarrow>
                   key \<in> {''trace_id'', ''environment'', ''release'', ''public_key''}" for key
    by (simp add: d property_def or_null_defined)
  have out: "snd (computeTracestateValue unicodeToBase64 d) = Inr ?out"
    using unicodeToBase64_stripped [of ?json]
    by (simp add: computeTracestateValue_def Let_def unicodeToBase64_def)
  have clean: "CHR ''='' \<notin> set ?out"
    by (rule base64_body_no_padding [OF base64_sextets_bound [OF bytes_of_string]])
  then have tail: "\<forall>p. ?out \<noteq> p @ ''=''"
    by (metis in_set_conv_decomp)
  have leaf: "json_leaf_of (or_null v) =
                (if v = IsUndefined \<or> v = IsNull \<or> v = IsString [] then JNull
                 else json_leaf_of v)" for v
    by (cases v) simp_all
  have m_env: "map_of ?members ''environment'' = Some (json_leaf_of (or_null (environment d)))"
    using map_of_members_of [OF env_in, of ?d] by (simp only: env or_null_defined) simp
  have m_rel: "map_of ?members ''release'' = Some (json_leaf_of (or_null (release d)))"
    using map_of_members_of [OF rel_in, of ?d] by (simp only: rel or_null_defined) simp
  have m_tid: "map_of ?members ''trace_id'' = Some (JString (trace_id d))"
    if "''trace_id'' \<in> set (property_order d)"
    using map_of_members_of [OF kept [OF that], of ?d] by (simp only: tid) simp
  have m_pkey: "map_of ?members ''public_key'' = Some (JString (public_key d))"
    if "''public_key'' \<in> set (property_order d)"
    using map_of_members_of [OF kept [OF that], of ?d] by (simp only: pkey) simp
  have "?members \<noteq> []"
    using m_env by auto
  then have "JSON_parse ?json = Some ?members"
    unfolding JSON_stringify_members by (rule JSON_parse_members)
  then have parsed:
    "(case base64_decode ?out of None \<Rightarrow> None | Some text \<Rightarrow> JSON_parse text) = Some ?members"
    by (simp add: base64_decode_body)
  have keys: "map fst ?members =
       filter (\<lambda>key. key \<in> {''trace_id'', ''environment'', ''release'', ''public_key''})
         (property_order ?d)"
    unfolding keys_members_of defined ..
  have padded: "unicodeToBase64 ?json = Inr (?out @ base64_padding (length ?json))"
    by (simp add: unicodeToBase64_def base64_encode_def)
  show ?thesis
    using out padded base64_padding_cases [of "length ?json"] clean tail parsed keys
      m_env m_rel m_tid m_pkey
    unfolding leaf by blast
qed

theorem computeTracestateValue_round_trip_witness:
  "snd (computeTracestateValue unicodeToBase64 tracestate_reordered) =
     Inr ''eyJwdWJsaWNfa2V5IjoiZG9nc2FyZWJhZGF0a2VlcGluZ3NlY3JldHMiLCJyZWxlYXNlIjoiMS4yLjMiLCJlbnZpcm9ubWVudCI6InByb2QiLCJ0cmFjZV9pZCI6IjRiZjkyZjM1NzdiMzRkYTZhM2NlOTI5ZDBlMGU0NzM2In0'' \<and>
   unicodeToBase64 (JSON_stringify (fst (computeTracestateValue unicodeToBase64 tracestate_reordered))) =
     Inr ''eyJwdWJsaWNfa2V5IjoiZG9nc2FyZWJhZGF0a2VlcGluZ3NlY3JldHMiLCJyZWxlYXNlIjoiMS4yLjMiLCJlbnZpcm9ubWVudCI6InByb2QiLCJ0cmFjZV9pZCI6IjRiZjkyZjM1NzdiMzRkYTZhM2NlOTI5ZDBlMGU0NzM2In0='' \<and>
   (case base64_decode ''eyJwdWJsaWNfa2V5IjoiZG9nc2FyZWJhZGF0a2VlcGluZ3NlY3JldHMiLCJyZWxlYXNlIjoiMS4yLjMiLCJlbnZpcm9ubWVudCI6InByb2QiLCJ0cmFjZV9pZCI6IjRiZjkyZjM1NzdiMzRkYTZhM2NlOTI5ZDBlMGU0NzM2In0'' of
      None \<Rightarrow> None
    | Some text \<Rightarrow> JSON_parse text) =
     Some [(''public_key'', JString ''dogsarebadatkeepingsecrets''), (''release'', JString ''1.2.3''),
           (''environment'', JString ''prod''),
           (''trace_id'', JString ''4bf92f3577b34da6a3ce929d0e0e4736'')] \<and>
   snd (computeTracestateValue unicodeToBase64 tracestate0) =
     Inr ''eyJ0cmFjZV9pZCI6IjRiZjkyZjM1NzdiMzRkYTZhM2NlOTI5ZDBlMGU0NzM2IiwiZW52aXJvbm1lbnQiOm51bGwsInB1YmxpY19rZXkiOiJkb2dzYXJlYmFkYXRrZWVwaW5nc2VjcmV0cyIsInJlbGVhc2UiOm51bGx9'' \<and>
   (case base64_decode ''eyJ0cmFjZV9pZCI6IjRiZjkyZjM1NzdiMzRkYTZhM2NlOTI5ZDBlMGU0NzM2IiwiZW52aXJvbm1lbnQiOm51bGwsInB1YmxpY19rZXkiOiJkb2dzYXJlYmFkYXRrZWVwaW5nc2VjcmV0cyIsInJlbGVhc2UiOm51bGx9'' of
      None \<Rightarrow> None
    | Some text \<Rightarrow> JSON_parse text) =
     Some [(''trace_id'', JString ''4bf92f3577b34da6a3ce929d0e0e4736''), (''environment'', JNull),
           (''public_key'', JString ''dogsarebadatkeepingsecrets''), (''release'', JNull)]"
proof -
  have r1: "(case base64_decode ''eyJwdWJsaWNfa2V5IjoiZG9nc2FyZWJhZGF0a2VlcGluZ3NlY3JldHMiLCJyZWxlYXNlIjoiMS4yLjMiLCJlbnZpcm9ubWVudCI6InByb2QiLCJ0cmFjZV9pZCI6IjRiZjkyZjM1NzdiMzRkYTZhM2NlOTI5ZDBlMGU0NzM2In0'' of
            None \<Rightarrow> None
          | Some text \<Rightarrow> JSON_parse text) =
           Some [(''public_key'', JString ''dogsarebadatkeepingsecrets''), (''release'', JString ''1.2.3''),
                 (''environment'', JString ''prod''),
                 (''trace_id'', JString ''4bf92f3577b34da6a3ce929d0e0e4736'')]"
  proof -
    from computeTracestateValue_round_trip [of tracestate_reordered] obtain out members where
      out: "snd (computeTracestateValue unicodeToBase64 tracestate_reordered) = Inr out" and
      parsed: "(case base64_decode out of None \<Rightarrow> None | Some text \<Rightarrow> JSON_parse text) =
                 Some members" and
      keys: "map fst members =
               filter (\<lambda>key. key \<in> {''trace_id'', ''environment'', ''release'', ''public_key''})
                 (property_order (fst (computeTracestateValue unicodeToBase64 tracestate_reordered)))" and
      env: "map_of members ''environment'' =
              Some (if environment tracestate_reordered = IsUndefined \<or> environment tracestate_reordered = IsNull \<or>
                       environment tracestate_reordered = IsString [] then JNull
                    else json_leaf_of (environment tracestate_reordered))" and
      rel: "map_of members ''release'' =
              Some (if release tracestate_reordered = IsUndefined \<or> release tracestate_reordered = IsNull \<or>
                       release tracestate_reordered = IsString [] then JNull
                    else json_leaf_of (release tracestate_reordered))" and
      tid: "''trace_id'' \<in> set (property_order tracestate_reordered) \<longrightarrow>
              map_of members ''trace_id'' = Some (JString (trace_id tracestate_reordered))" and
      pkey: "''public_key'' \<in> set (property_order tracestate_reordered) \<longrightarrow>
              map_of members ''public_key'' = Some (JString (public_key tracestate_reordered))"
      by blast
    from out tracestate_reordered_value have
      "out = ''eyJwdWJsaWNfa2V5IjoiZG9nc2FyZWJhZGF0a2VlcGluZ3NlY3JldHMiLCJyZWxlYXNlIjoiMS4yLjMiLCJlbnZpcm9ubWVudCI6InByb2QiLCJ0cmFjZV9pZCI6IjRiZjkyZjM1NzdiMzRkYTZhM2NlOTI5ZDBlMGU0NzM2In0''"
      by simp
    moreover from keys env rel tid pkey have "members = [(''public_key'', JString ''dogsarebadatkeepingsecrets''), (''release'', JString ''1.2.3''),
                 (''environment'', JString ''prod''),
                 (''trace_id'', JString ''4bf92f3577b34da6a3ce929d0e0e4736'')]"
      by (auto simp: tracestate_reordered_def computeTracestateValue_def Let_def assigned_def
          map_eq_Cons_conv)
    ultimately show ?thesis using parsed by simp
  qed
  have r0: "(case base64_decode ''eyJ0cmFjZV9pZCI6IjRiZjkyZjM1NzdiMzRkYTZhM2NlOTI5ZDBlMGU0NzM2IiwiZW52aXJvbm1lbnQiOm51bGwsInB1YmxpY19rZXkiOiJkb2dzYXJlYmFkYXRrZWVwaW5nc2VjcmV0cyIsInJlbGVhc2UiOm51bGx9'' of
            None \<Rightarrow> None
          | Some text \<Rightarrow> JSON_parse text) =
           Some [(''trace_id'', JString ''4bf92f3577b34da6a3ce929d0e0e4736''), (''environment'', JNull),
                 (''public_key'', JString ''dogsarebadatkeepingsecrets''), (''release'', JNull)]"
  proof -
    from computeTracestateValue_round_trip [of tracestate0] obtain out members where
      out: "snd (computeTracestateValue unicodeToBase64 tracestate0) = Inr out" and
      parsed: "(case base64_decode out of None \<Rightarrow> None | Some text \<Rightarrow> JSON_parse text) =
                 Some members" and
      keys: "map fst members =
               filter (\<lambda>key. key \<in> {''trace_id'', ''environment'', ''release'', ''public_key''})
                 (property_order (fst (computeTracestateValue unicodeToBase64 tracestate0)))" and
      env: "map_of members ''environment'' =
              Some (if environment tracestate0 = IsUndefined \<or> environment tracestate0 = IsNull \<or>
                       environment tracestate0 = IsString [] then JNull
                    else json_leaf_of (environment tracestate0))" and
      rel: "map_of members ''release'' =
              Some (if release tracestate0 = IsUndefined \<or> release tracestate0 = IsNull \<or>
                       release tracestate0 = IsString [] then JNull
                    else json_leaf_of (release tracestate0))" and
      tid: "''trace_id'' \<in> set (property_order tracestate0) \<longrightarrow>
              map_of members ''trace_id'' = Some (JString (trace_id tracestate0))" and
      pkey: "''public_key'' \<in> set (property_order tracestate0) \<longrightarrow>
              map_of members ''public_key'' = Some (JString (public_key tracestate0))"
      by blast
    from out tracestate0_value have
      "out = ''eyJ0cmFjZV9pZCI6IjRiZjkyZjM1NzdiMzRkYTZhM2NlOTI5ZDBlMGU0NzM2IiwiZW52aXJvbm1lbnQiOm51bGwsInB1YmxpY19rZXkiOiJkb2dzYXJlYmFkYXRrZWVwaW5nc2VjcmV0cyIsInJlbGVhc2UiOm51bGx9''"
      by simp
    moreover from keys env rel tid pkey have "members = [(''trace_id'', JString ''4bf92f3577b34da6a3ce929d0e0e4736''), (''environment'', JNull),
                 (''public_key'', JString ''dogsarebadatkeepingsecrets''), (''release'', JNull)]"
      by (auto simp: tracestate0_def computeTracestateValue_def Let_def assigned_def
          map_eq_Cons_conv)
    ultimately show ?thesis using parsed by simp
  qed
  show ?thesis using r1 r0 tracestate_reordered_value tracestate0_value by simp
qed

end
